theory Spec2Isabelle
  imports Main "HOL-Library.Word"
begin

unbundle bit_operations_syntax

section \<open>JavaScript values\<close>

text \<open>
  A JavaScript string is a sequence of UTF-16 code units; \<open>length\<close> counts code units, as
  \<^verbatim>\<open>s.length\<close> does. A \<^verbatim>\<open>Uint8Array\<close> is a list of 8-bit words.
\<close>

type_synonym jschar = nat
type_synonym jsstring = "jschar list"
type_synonym byte = "8 word"

definition js :: "string \<Rightarrow> jsstring" where
  "js s = map of_char s"

text \<open>
  The values that travel through the extension's messages and its key-value store. Numbers
  are restricted to integer values; a plain object is its list of own properties.
\<close>

datatype jsval =
    Undefined
  | Null
  | Bool bool
  | Num int
  | Str jsstring
  | Arr "jsval list"
  | Obj "(string \<times> jsval) list"

datatype js_error =
    TypeError
  | RangeError
  | InvalidCharacterError
  | QuotaExceededError
  | SyntaxError
  | OperationError
  | Error jsstring

text \<open>\<^verbatim>\<open>!v\<close> is true exactly for the falsy values.\<close>

fun truthy :: "jsval \<Rightarrow> bool" where
  "truthy Undefined = False"
| "truthy Null = False"
| "truthy (Bool b) = b"
| "truthy (Num n) = (n \<noteq> 0)"
| "truthy (Str s) = (s \<noteq> [])"
| "truthy (Arr xs) = True"
| "truthy (Obj kvs) = True"

text \<open>Property read \<^verbatim>\<open>v.k\<close> for a property name that no prototype defines.\<close>

fun get_prop :: "jsval \<Rightarrow> string \<Rightarrow> jsval" where
  "get_prop (Obj kvs) k = (case map_of kvs k of Some v \<Rightarrow> v | None \<Rightarrow> Undefined)"
| "get_prop v k = Undefined"

fun digits_of :: "nat \<Rightarrow> nat \<Rightarrow> jsstring" where
  "digits_of 0 n = []"
| "digits_of (Suc fuel) n =
     (if n < 10 then [48 + n] else digits_of fuel (n div 10) @ [48 + n mod 10])"

definition show_nat :: "nat \<Rightarrow> jsstring" where
  "show_nat n = digits_of (Suc n) n"

definition show_int :: "int \<Rightarrow> jsstring" where
  "show_int i = (if i < 0 then 45 # show_nat (nat (- i)) else show_nat (nat i))"

fun join_with :: "jsstring \<Rightarrow> jsstring list \<Rightarrow> jsstring" where
  "join_with sep [] = []"
| "join_with sep [x] = x"
| "join_with sep (x # y # ys) = x @ sep @ join_with sep (y # ys)"

text \<open>\<^verbatim>\<open>String(v)\<close>; the decimal rendering of a number is the one of integers below 10^21.\<close>

fun to_string :: "jsval \<Rightarrow> jsstring" where
  "to_string Undefined = js ''undefined''"
| "to_string Null = js ''null''"
| "to_string (Bool b) = (if b then js ''true'' else js ''false'')"
| "to_string (Num n) = show_int n"
| "to_string (Str s) = s"
| "to_string (Arr xs) =
     join_with [44] (map (\<lambda>x. if x = Undefined \<or> x = Null then [] else to_string x) xs)"
| "to_string (Obj kvs) = js ''[object Object]''"

section \<open>Base64: \<^verbatim>\<open>btoa\<close> and \<^verbatim>\<open>atob\<close>\<close>

definition b64_char :: "nat \<Rightarrow> jschar" where
  "b64_char n =
     (if n < 26 then 65 + n
      else if n < 52 then 97 + (n - 26)
      else if n < 62 then 48 + (n - 52)
      else if n = 62 then 43 else 47)"

definition b64_value :: "jschar \<Rightarrow> nat option" where
  "b64_value c =
     (if 65 \<le> c \<and> c \<le> 90 then Some (c - 65)
      else if 97 \<le> c \<and> c \<le> 122 then Some (c - 97 + 26)
      else if 48 \<le> c \<and> c \<le> 57 then Some (c - 48 + 52)
      else if c = 43 then Some 62
      else if c = 47 then Some 63
      else None)"

fun b64_encode :: "nat list \<Rightarrow> jsstring" where
  "b64_encode (a # b # c # rest) =
     [b64_char (a div 4), b64_char ((a mod 4) * 16 + b div 16),
      b64_char ((b mod 16) * 4 + c div 64), b64_char (c mod 64)] @ b64_encode rest"
| "b64_encode [a, b] =
     [b64_char (a div 4), b64_char ((a mod 4) * 16 + b div 16), b64_char ((b mod 16) * 4), 61]"
| "b64_encode [a] = [b64_char (a div 4), b64_char ((a mod 4) * 16), 61, 61]"
| "b64_encode [] = []"

text \<open>\<^verbatim>\<open>btoa\<close> throws on a code unit above 0xFF.\<close>

definition btoa :: "jsstring \<Rightarrow> js_error + jsstring" where
  "btoa s = (if list_ex (\<lambda>c. 255 < c) s then Inl InvalidCharacterError else Inr (b64_encode s))"

definition ascii_whitespace :: "jschar \<Rightarrow> bool" where
  "ascii_whitespace c = (c = 9 \<or> c = 10 \<or> c = 12 \<or> c = 13 \<or> c = 32)"

definition strip_padding :: "jsstring \<Rightarrow> jsstring" where
  "strip_padding d =
     (if length d mod 4 = 0 \<and> d \<noteq> [] \<and> last d = 61
      then (if butlast d \<noteq> [] \<and> last (butlast d) = 61 then butlast (butlast d) else butlast d)
      else d)"

fun b64_decode :: "nat list \<Rightarrow> nat list" where
  "b64_decode (a # b # c # d # rest) =
     [a * 4 + b div 16, (b mod 16) * 16 + c div 4, (c mod 4) * 64 + d] @ b64_decode rest"
| "b64_decode [a, b, c] = [a * 4 + b div 16, (b mod 16) * 16 + c div 4]"
| "b64_decode [a, b] = [a * 4 + b div 16]"
| "b64_decode [a] = []"
| "b64_decode [] = []"

text \<open>
  \<^verbatim>\<open>atob\<close> is the forgiving base64 decoder: ASCII whitespace is dropped, one or two
  trailing \<open>=\<close> are dropped when the length is a multiple of four, and a remaining length of
  1 modulo 4 or a character outside the alphabet throws.
\<close>

definition atob :: "jsstring \<Rightarrow> js_error + jsstring" where
  "atob s =
     (let d = strip_padding (filter (\<lambda>c. \<not> ascii_whitespace c) s)
      in if length d mod 4 = 1 then Inl InvalidCharacterError
         else (case those (map b64_value d) of
                 None \<Rightarrow> Inl InvalidCharacterError
               | Some vs \<Rightarrow> Inr (b64_decode vs)))"

section \<open>UTF-8: \<^verbatim>\<open>TextEncoder\<close> and \<^verbatim>\<open>TextDecoder\<close>\<close>

definition is_high_surrogate :: "jschar \<Rightarrow> bool" where
  "is_high_surrogate c = (0xD800 \<le> c \<and> c \<le> 0xDBFF)"

definition is_low_surrogate :: "jschar \<Rightarrow> bool" where
  "is_low_surrogate c = (0xDC00 \<le> c \<and> c \<le> 0xDFFF)"

text \<open>
  The scalar values of a string: a surrogate pair is one code point, and a surrogate
  without its partner is replaced by U+FFFD, as the encoder does with its input.
\<close>

fun code_points :: "jsstring \<Rightarrow> nat list" where
  "code_points [] = []"
| "code_points [c] = [if is_high_surrogate c \<or> is_low_surrogate c then 0xFFFD else c]"
| "code_points (c # d # cs) =
     (if is_high_surrogate c \<and> is_low_surrogate d
      then (0x10000 + (c - 0xD800) * 1024 + (d - 0xDC00)) # code_points cs
      else if is_high_surrogate c \<or> is_low_surrogate c then 0xFFFD # code_points (d # cs)
      else c # code_points (d # cs))"

definition utf8_of_cp :: "nat \<Rightarrow> nat list" where
  "utf8_of_cp cp =
     (if cp < 0x80 then [cp]
      else if cp < 0x800 then [0xC0 + cp div 64, 0x80 + cp mod 64]
      else if cp < 0x10000 then [0xE0 + cp div 4096, 0x80 + (cp div 64) mod 64, 0x80 + cp mod 64]
      else [0xF0 + cp div 262144, 0x80 + (cp div 4096) mod 64, 0x80 + (cp div 64) mod 64,
            0x80 + cp mod 64])"

text \<open>\<^verbatim>\<open>new TextEncoder().encode(s)\<close>\<close>

definition text_encode :: "jsstring \<Rightarrow> byte list" where
  "text_encode s = map of_nat (concat (map utf8_of_cp (code_points s)))"

text \<open>
  The UTF-8 decoder with replacement: \<open>needed\<close> continuation bytes are still expected for
  the code point \<open>cp\<close>, the next one within \<open>lo\<close> and \<open>hi\<close>. A byte that cannot
  continue the sequence yields U+FFFD and is read again as the start of a sequence.
\<close>

fun utf8_decode :: "nat \<Rightarrow> nat \<Rightarrow> nat \<Rightarrow> nat \<Rightarrow> nat list \<Rightarrow> nat list" where
  "utf8_decode needed cp lo hi [] = (if needed = 0 then [] else [0xFFFD])"
| "utf8_decode needed cp lo hi (x # xs) =
     (if needed = 0 then
        (if x \<le> 0x7F then x # utf8_decode 0 0 0x80 0xBF xs
         else if 0xC2 \<le> x \<and> x \<le> 0xDF then utf8_decode 1 (x mod 32) 0x80 0xBF xs
         else if 0xE0 \<le> x \<and> x \<le> 0xEF
           then utf8_decode 2 (x mod 16) (if x = 0xE0 then 0xA0 else 0x80)
                  (if x = 0xED then 0x9F else 0xBF) xs
         else if 0xF0 \<le> x \<and> x \<le> 0xF4
           then utf8_decode 3 (x mod 8) (if x = 0xF0 then 0x90 else 0x80)
                  (if x = 0xF4 then 0x8F else 0xBF) xs
         else 0xFFFD # utf8_decode 0 0 0x80 0xBF xs)
      else if x < lo \<or> hi < x then 0xFFFD # utf8_decode 0 0 0x80 0xBF (x # xs)
      else if needed = 1 then (cp * 64 + x mod 64) # utf8_decode 0 0 0x80 0xBF xs
      else utf8_decode (needed - 1) (cp * 64 + x mod 64) 0x80 0xBF xs)"

definition strip_bom :: "nat list \<Rightarrow> nat list" where
  "strip_bom cps = (case cps of [] \<Rightarrow> [] | c # cs \<Rightarrow> if c = 0xFEFF then cs else c # cs)"

definition utf16_of_cp :: "nat \<Rightarrow> jsstring" where
  "utf16_of_cp cp =
     (if cp < 0x10000 then [cp]
      else [0xD800 + (cp - 0x10000) div 1024, 0xDC00 + (cp - 0x10000) mod 1024])"

text \<open>\<^verbatim>\<open>new TextDecoder().decode(bytes)\<close>: UTF-8, not fatal, a leading byte order mark dropped.\<close>

definition text_decode :: "byte list \<Rightarrow> jsstring" where
  "text_decode bs =
     concat (map utf16_of_cp (strip_bom (utf8_decode 0 0 0x80 0xBF (map unat bs))))"

text \<open>A string is well formed when every surrogate is half of a pair.\<close>

fun well_formed :: "jsstring \<Rightarrow> bool" where
  "well_formed [] = True"
| "well_formed [c] = (c < 0x10000 \<and> \<not> is_high_surrogate c \<and> \<not> is_low_surrogate c)"
| "well_formed (c # d # cs) =
     (if is_high_surrogate c then is_low_surrogate d \<and> well_formed cs
      else c < 0x10000 \<and> \<not> is_low_surrogate c \<and> well_formed (d # cs))"

text \<open>Scalar values are the code points a well-formed string can hold.\<close>

definition scalar :: "nat \<Rightarrow> bool" where
  "scalar cp = (cp < 0x110000 \<and> \<not> (0xD800 \<le> cp \<and> cp \<le> 0xDFFF))"

section \<open>The platform and the state of the extension\<close>

text \<open>
  The Web Crypto primitives and the JSON codec are parameters of the model. \<open>derive_key\<close>
  stands for \<^verbatim>\<open>importKey\<close> followed by \<^verbatim>\<open>deriveKey\<close> (PBKDF2, SHA-256) on the
  passphrase bytes, the salt and the iteration count; \<open>None\<close> is a rejected promise.
  \<open>json_stringify\<close> yields \<open>None\<close> where \<^verbatim>\<open>JSON.stringify\<close> yields
  \<^verbatim>\<open>undefined\<close>; \<open>json_parse\<close> yields \<open>None\<close> where \<^verbatim>\<open>JSON.parse\<close> throws.
  \<open>runtime_id\<close> is \<^verbatim>\<open>chrome.runtime.id\<close>. \<open>html_sanitize text profile\<close> is the
  result of DOMPurify, or of the DOM-walking fallback, for a profile other than
  \<^verbatim>\<open>strict\<close>. \<open>date_to_iso v\<close> is \<^verbatim>\<open>new Date(v).toISOString()\<close>, \<open>None\<close> where it
  throws a \<^verbatim>\<open>RangeError\<close>; \<open>iso_of_time t\<close> is the same for the clock value \<open>t\<close>.
  \<open>max_arguments\<close> is the largest number of arguments the engine accepts in one call: a
  spread call \<^verbatim>\<open>f(...xs)\<close> with more elements throws a \<^verbatim>\<open>RangeError\<close>.
\<close>

record platform =
  derive_key :: "byte list \<Rightarrow> byte list \<Rightarrow> nat \<Rightarrow> byte list option"
  gcm_encrypt :: "byte list \<Rightarrow> byte list \<Rightarrow> byte list \<Rightarrow> byte list option"
  gcm_decrypt :: "byte list \<Rightarrow> byte list \<Rightarrow> byte list \<Rightarrow> byte list option"
  json_stringify :: "jsval \<Rightarrow> jsstring option"
  json_parse :: "jsstring \<Rightarrow> jsval option"
  runtime_id :: jsstring
  html_sanitize :: "jsstring \<Rightarrow> jsstring \<Rightarrow> jsstring"
  date_to_iso :: "jsval \<Rightarrow> jsstring option"
  iso_of_time :: "nat \<Rightarrow> jsstring"
  max_arguments :: nat

datatype crypto_call = GetRandomValues nat | DeriveKey | Encrypt | Decrypt

text \<open>
  The state the code reads and writes: the entropy that \<^verbatim>\<open>crypto.getRandomValues\<close> will
  deliver and how much of it has been drawn, the log of cryptographic calls made so far,
  the wall clock in milliseconds, \<^verbatim>\<open>chrome.storage.local\<close>, and the module variables of
  the background worker. \<open>passphraseTimeout\<close> holds the time at which the pending timer
  fires, or \<open>None\<close> when no timer is pending.
\<close>

record world =
  entropy :: "nat \<Rightarrow> byte"
  drawn :: nat
  calls :: "crypto_call list"
  clock :: nat
  storage :: "(string \<times> jsval) list"
  encryptedCredentials :: jsval
  sessionPassphrase :: "jsstring option"
  passphraseTimeout :: "nat option"

text \<open>A computation may throw and may change the state.\<close>

type_synonym 'a io = "world \<Rightarrow> (js_error + 'a) \<times> world"

definition ret :: "'a \<Rightarrow> 'a io" where
  "ret x w = (Inr x, w)"

definition throw :: "js_error \<Rightarrow> 'a io" where
  "throw e w = (Inl e, w)"

definition lift :: "js_error + 'a \<Rightarrow> 'a io" where
  "lift r w = (r, w)"

definition and_then :: "'a io \<Rightarrow> ('a \<Rightarrow> 'b io) \<Rightarrow> 'b io" where
  "and_then m f w = (case m w of (Inl e, w') \<Rightarrow> (Inl e, w') | (Inr x, w') \<Rightarrow> f x w')"

definition try_catch :: "'a io \<Rightarrow> (js_error \<Rightarrow> 'a io) \<Rightarrow> 'a io" where
  "try_catch m h w = (case m w of (Inl e, w') \<Rightarrow> h e w' | (Inr x, w') \<Rightarrow> (Inr x, w'))"

definition modify :: "(world \<Rightarrow> world) \<Rightarrow> unit io" where
  "modify f w = (Inr (), f w)"

definition called :: "crypto_call \<Rightarrow> unit io" where
  "called c = modify (\<lambda>w. w\<lparr>calls := calls w @ [c]\<rparr>)"

text \<open>
  \<^verbatim>\<open>crypto.getRandomValues(new Uint8Array(n))\<close>: more than 65536 bytes in one call is a
  \<^verbatim>\<open>QuotaExceededError\<close>.
\<close>

definition getRandomValues :: "nat \<Rightarrow> byte list io" where
  "getRandomValues n =
     and_then (called (GetRandomValues n)) (\<lambda>_ w.
       if 65536 < n then (Inl QuotaExceededError, w)
       else (Inr (map (entropy w) [drawn w ..< drawn w + n]), w\<lparr>drawn := drawn w + n\<rparr>))"

definition storage_get :: "string \<Rightarrow> world \<Rightarrow> jsval" where
  "storage_get k w = (case map_of (storage w) k of Some v \<Rightarrow> v | None \<Rightarrow> Undefined)"

definition storage_set :: "(string \<times> jsval) list \<Rightarrow> unit io" where
  "storage_set kvs =
     modify (\<lambda>w. w\<lparr>storage := kvs @ filter (\<lambda>(k, v). k \<notin> set (map fst kvs)) (storage w)\<rparr>)"

definition storage_remove :: "string list \<Rightarrow> unit io" where
  "storage_remove ks =
     modify (\<lambda>w. w\<lparr>storage := filter (\<lambda>(k, v). k \<notin> set ks) (storage w)\<rparr>)"

section \<open>crypto.js: \<^verbatim>\<open>SecureStorage\<close>\<close>

definition iterations :: nat where
  "iterations = 100000"

definition saltLength :: nat where
  "saltLength = 16"

definition ivLength :: nat where
  "ivLength = 12"

definition arrayBufferToBase64 :: "byte list \<Rightarrow> js_error + jsstring" where
  "arrayBufferToBase64 buffer = btoa (map unat buffer)"

definition base64ToArrayBuffer :: "jsstring \<Rightarrow> js_error + byte list" where
  "base64ToArrayBuffer base64 =
     (case atob base64 of Inl e \<Rightarrow> Inl e | Inr binary \<Rightarrow> Inr (map of_nat binary))"

definition deriveKeyFromPassphrase :: "platform \<Rightarrow> jsstring \<Rightarrow> byte list \<Rightarrow> byte list io" where
  "deriveKeyFromPassphrase P passphrase salt =
     and_then (called DeriveKey) (\<lambda>_.
       case derive_key P (text_encode passphrase) salt iterations of
         None \<Rightarrow> throw (Error (js ''Invalid passphrase or corrupted salt''))
       | Some key \<Rightarrow> ret key)"

definition subtle_encrypt :: "platform \<Rightarrow> byte list \<Rightarrow> byte list \<Rightarrow> byte list \<Rightarrow> byte list io" where
  "subtle_encrypt P key iv data =
     and_then (called Encrypt) (\<lambda>_.
       case gcm_encrypt P key iv data of None \<Rightarrow> throw OperationError | Some c \<Rightarrow> ret c)"

definition subtle_decrypt :: "platform \<Rightarrow> byte list \<Rightarrow> byte list \<Rightarrow> byte list \<Rightarrow> byte list io" where
  "subtle_decrypt P key iv data =
     and_then (called Decrypt) (\<lambda>_.
       case gcm_decrypt P key iv data of None \<Rightarrow> throw OperationError | Some c \<Rightarrow> ret c)"

text \<open>
  \<^verbatim>\<open>encoder.encode(JSON.stringify(credentials))\<close>: an \<^verbatim>\<open>undefined\<close> argument of
  \<^verbatim>\<open>encode\<close> is the empty string.
\<close>

definition payload :: "platform \<Rightarrow> jsval \<Rightarrow> byte list" where
  "payload P credentials =
     text_encode (case json_stringify P credentials of None \<Rightarrow> [] | Some s \<Rightarrow> s)"

definition encryptCredentials :: "platform \<Rightarrow> jsval \<Rightarrow> jsstring \<Rightarrow> jsval io" where
  "encryptCredentials P credentials passphrase =
     try_catch
       (and_then (getRandomValues saltLength) (\<lambda>salt.
        and_then (getRandomValues ivLength) (\<lambda>iv.
        and_then (deriveKeyFromPassphrase P passphrase salt) (\<lambda>key.
        and_then (subtle_encrypt P key iv (payload P credentials)) (\<lambda>encrypted.
        and_then (lift (arrayBufferToBase64 encrypted)) (\<lambda>e64.
        and_then (lift (arrayBufferToBase64 salt)) (\<lambda>s64.
        and_then (lift (arrayBufferToBase64 iv)) (\<lambda>i64 w.
          (Inr (Obj [(''encrypted'', Str e64), (''salt'', Str s64), (''iv'', Str i64),
                     (''version'', Num 1), (''algorithm'', Str (js ''AES-GCM'')),
                     (''timestamp'', Num (int (clock w)))]), w)))))))))
       (\<lambda>error. throw (Error (js ''Failed to encrypt credentials'')))"

definition clearBuffer :: "byte list \<Rightarrow> unit io" where
  "clearBuffer buffer = and_then (getRandomValues (length buffer)) (\<lambda>_. ret ())"

definition decryptCredentials :: "platform \<Rightarrow> jsval \<Rightarrow> jsstring \<Rightarrow> jsval io" where
  "decryptCredentials P encryptedData passphrase =
     try_catch
       (and_then (lift (base64ToArrayBuffer (to_string (get_prop encryptedData ''salt'')))) (\<lambda>salt.
        and_then (lift (base64ToArrayBuffer (to_string (get_prop encryptedData ''iv'')))) (\<lambda>iv.
        and_then (lift (base64ToArrayBuffer (to_string (get_prop encryptedData ''encrypted''))))
          (\<lambda>ciphertext.
        and_then (deriveKeyFromPassphrase P passphrase salt) (\<lambda>key.
        and_then (subtle_decrypt P key iv ciphertext) (\<lambda>decrypted.
        and_then (clearBuffer decrypted) (\<lambda>_.
          case json_parse P (text_decode decrypted) of
            None \<Rightarrow> throw SyntaxError
          | Some v \<Rightarrow> ret v)))))))
       (\<lambda>error. throw (Error
          (js ''Failed to decrypt credentials - invalid passphrase or corrupted data'')))"

definition generateSecurePassphrase :: "jsstring io" where
  "generateSecurePassphrase =
     and_then (getRandomValues 32) (\<lambda>array. lift (arrayBufferToBase64 array))"

section \<open>background.js: the installation key\<close>

text \<open>
  \<^verbatim>\<open>data[i] ^ salt[i % salt.length]\<close>: with an empty salt the index is \<^verbatim>\<open>NaN\<close>, the
  element \<^verbatim>\<open>undefined\<close>, and the byte is left as it is.
\<close>

definition xor_with :: "byte list \<Rightarrow> byte list \<Rightarrow> byte list" where
  "xor_with salt data =
     map (\<lambda>i. if salt = [] then data ! i else (data ! i) XOR (salt ! (i mod length salt)))
       [0 ..< length data]"

text \<open>
  \<^verbatim>\<open>btoa(String.fromCharCode(...encrypted))\<close> passes every byte as an argument of its own.
\<close>

definition encryptInstallationKey :: "platform \<Rightarrow> jsstring \<Rightarrow> js_error + jsstring" where
  "encryptInstallationKey P passphrase =
     (let encrypted = xor_with (text_encode (runtime_id P)) (text_encode passphrase)
      in if max_arguments P < length encrypted then Inl RangeError
         else btoa (map unat encrypted))"

definition decryptInstallationKey :: "platform \<Rightarrow> jsstring \<Rightarrow> js_error + jsstring" where
  "decryptInstallationKey P encryptedKey =
     (case atob encryptedKey of
        Inl e \<Rightarrow> Inl e
      | Inr binary \<Rightarrow>
          Inr (text_decode (xor_with (text_encode (runtime_id P)) (map of_nat binary))))"

definition installationKey_roundtrip :: "platform \<Rightarrow> jsstring \<Rightarrow> js_error + jsstring" where
  "installationKey_roundtrip P passphrase =
     (case encryptInstallationKey P passphrase of
        Inl e \<Rightarrow> Inl e
      | Inr encryptedKey \<Rightarrow> decryptInstallationKey P encryptedKey)"

definition starts_with_bom :: "jsstring \<Rightarrow> bool" where
  "starts_with_bom s = (case s of [] \<Rightarrow> False | c # cs \<Rightarrow> c = 0xFEFF)"

definition is_upper :: "jschar \<Rightarrow> bool" where
  "is_upper c = (65 \<le> c \<and> c \<le> 90)"

definition is_lower :: "jschar \<Rightarrow> bool" where
  "is_lower c = (97 \<le> c \<and> c \<le> 122)"

definition is_digit :: "jschar \<Rightarrow> bool" where
  "is_digit c = (48 \<le> c \<and> c \<le> 57)"

section \<open>Regular expressions\<close>

text \<open>
  The constructs that the source's patterns use. A class is a list of inclusive ranges.
  Matching is by backtracking, with the priorities of ECMAScript: the list of successes
  that \<open>rx\<close> returns is in the order in which a backtracking matcher would try
  them, so the head of the list is the match that the engine reports. A matching position is
  the code unit before it (\<open>None\<close> at the start of the input) and the rest of the input.
\<close>

datatype regex =
    Eps
  | Lit jschar
  | Cls "(jschar \<times> jschar) list"
  | NCls "(jschar \<times> jschar) list"
  | Seq regex regex
  | Alt regex regex
  | Star regex
  | NotAhead regex
  | WordB
  | Bol
  | Eol

type_synonym mstate = "jschar option \<times> jsstring"

definition in_ranges :: "(jschar \<times> jschar) list \<Rightarrow> jschar \<Rightarrow> bool" where
  "in_ranges rs c = list_ex (\<lambda>r. fst r \<le> c \<and> c \<le> snd r) rs"

definition ascii_upper :: "jschar \<Rightarrow> jschar" where
  "ascii_upper c = (if is_lower c then c - 32 else c)"

text \<open>
  With the \<^verbatim>\<open>i\<close> flag and without the \<^verbatim>\<open>u\<close> flag, an ASCII letter of a pattern
  matches its two ASCII cases and nothing else. The classes that the source uses under
  \<^verbatim>\<open>i\<close> are closed under case, so the flag only matters for literals.
\<close>

definition lit_match :: "bool \<Rightarrow> jschar \<Rightarrow> jschar \<Rightarrow> bool" where
  "lit_match ci p c = (if ci then ascii_upper p = ascii_upper c else p = c)"

definition word_class :: "(jschar \<times> jschar) list" where
  "word_class = [(65, 90), (97, 122), (48, 57), (95, 95)]"

definition space_class :: "(jschar \<times> jschar) list" where
  "space_class =
     [(9, 13), (32, 32), (0xA0, 0xA0), (0x1680, 0x1680), (0x2000, 0x200A), (0x2028, 0x2029),
      (0x202F, 0x202F), (0x205F, 0x205F), (0x3000, 0x3000), (0xFEFF, 0xFEFF)]"

definition word_before :: "mstate \<Rightarrow> bool" where
  "word_before st = (case fst st of None \<Rightarrow> False | Some c \<Rightarrow> in_ranges word_class c)"

definition word_after :: "mstate \<Rightarrow> bool" where
  "word_after st = (case snd st of [] \<Rightarrow> False | c # cs \<Rightarrow> in_ranges word_class c)"

text \<open>
  Greedy iteration: first one more round of the body (a round that consumes nothing is
  not taken), then stopping here. The bound is the length of the remaining input, which every
  round shortens.
\<close>

primrec star_from :: "(mstate \<Rightarrow> mstate list) \<Rightarrow> nat \<Rightarrow> mstate \<Rightarrow> mstate list" where
  "star_from step 0 st = [st]"
| "star_from step (Suc n) st =
     concat (map (star_from step n)
       (filter (\<lambda>st'. length (snd st') < length (snd st)) (step st))) @ [st]"

primrec rx :: "regex \<Rightarrow> bool \<Rightarrow> mstate \<Rightarrow> mstate list" where
  "rx Eps ci st = [st]"
| "rx (Lit p) ci st =
     (case snd st of [] \<Rightarrow> [] | c # cs \<Rightarrow> if lit_match ci p c then [(Some c, cs)] else [])"
| "rx (Cls rs) ci st =
     (case snd st of [] \<Rightarrow> [] | c # cs \<Rightarrow> if in_ranges rs c then [(Some c, cs)] else [])"
| "rx (NCls rs) ci st =
     (case snd st of [] \<Rightarrow> [] | c # cs \<Rightarrow> if in_ranges rs c then [] else [(Some c, cs)])"
| "rx (Seq r1 r2) ci st = concat (map (rx r2 ci) (rx r1 ci st))"
| "rx (Alt r1 r2) ci st = rx r1 ci st @ rx r2 ci st"
| "rx (Star r) ci st = star_from (rx r ci) (length (snd st)) st"
| "rx (NotAhead r) ci st = (if rx r ci st = [] then [st] else [])"
| "rx WordB ci st = (if word_before st = word_after st then [] else [st])"
| "rx Bol ci st = (if fst st = None then [st] else [])"
| "rx Eol ci st = (if snd st = [] then [st] else [])"

text \<open>\<^verbatim>\<open>re.test(s)\<close> for a pattern without the \<^verbatim>\<open>g\<close> flag: a match at some position.\<close>

fun test_from :: "regex \<Rightarrow> bool \<Rightarrow> jschar option \<Rightarrow> jsstring \<Rightarrow> bool" where
  "test_from r ci pv [] = (rx r ci (pv, []) \<noteq> [])"
| "test_from r ci pv (c # cs) =
     (if rx r ci (pv, c # cs) \<noteq> [] then True else test_from r ci (Some c) cs)"

definition regex_test :: "regex \<Rightarrow> bool \<Rightarrow> jsstring \<Rightarrow> bool" where
  "regex_test r ci s = test_from r ci None s"

text \<open>
  \<^verbatim>\<open>s.replace(re, '')\<close> for a pattern with the \<^verbatim>\<open>g\<close> flag: scanning from the left,
  the first match at the earliest position is dropped and the scan goes on behind it;
  \<open>skip\<close> counts the code units of the current match that are still to be dropped. An
  empty match drops nothing and the scan moves on by one code unit.
\<close>

fun replace_scan :: "regex \<Rightarrow> bool \<Rightarrow> nat \<Rightarrow> jschar option \<Rightarrow> jsstring \<Rightarrow> jsstring" where
  "replace_scan r ci skip pv [] = []"
| "replace_scan r ci (Suc k) pv (c # cs) = replace_scan r ci k (Some c) cs"
| "replace_scan r ci 0 pv (c # cs) =
     (case rx r ci (pv, c # cs) of
        [] \<Rightarrow> c # replace_scan r ci 0 (Some c) cs
      | st' # sts \<Rightarrow>
          (if length (snd st') < length (c # cs)
           then replace_scan r ci (length cs - length (snd st')) (Some c) cs
           else c # replace_scan r ci 0 (Some c) cs))"

definition replace_all :: "regex \<Rightarrow> bool \<Rightarrow> jsstring \<Rightarrow> jsstring" where
  "replace_all r ci s = replace_scan r ci 0 None s"

fun lits :: "string \<Rightarrow> regex" where
  "lits [] = Eps"
| "lits (c # cs) = Seq (Lit (of_char c)) (lits cs)"

definition plus :: "regex \<Rightarrow> regex" where
  "plus r = Seq r (Star r)"

section \<open>sanitizer.js: \<^verbatim>\<open>InputSanitizer\<close>\<close>

text \<open>
  \<^verbatim>\<open>/<tag\b[^<]*(?:(?!<\/tag>)<[^<]*)*<\/tag>/gi\<close>, the pattern that the source writes out
  for \<^verbatim>\<open>script\<close>, \<^verbatim>\<open>iframe\<close>, \<^verbatim>\<open>object\<close> and \<^verbatim>\<open>applet\<close>.
\<close>

definition element_block :: "string \<Rightarrow> regex" where
  "element_block tag =
     Seq (lits (''<'' @ tag)) (Seq WordB (Seq (Star (NCls [(60, 60)]))
       (Seq (Star (Seq (NotAhead (lits (''</'' @ tag @ ''>'')))
                    (Seq (Lit 60) (Star (NCls [(60, 60)])))))
            (lits (''</'' @ tag @ ''>'')))))"

definition dangerousPatterns :: "regex list" where
  "dangerousPatterns =
     [element_block ''script'',
      lits ''javascript:'',
      Seq (lits ''on'') (Seq (plus (Cls word_class)) (Seq (Star (Cls space_class)) (Lit 61))),
      element_block ''iframe'',
      element_block ''object'',
      Seq (lits ''<embed'') (Seq WordB (Seq (Star (NCls [(62, 62)])) (Lit 62))),
      element_block ''applet'',
      lits ''data:text/html'',
      lits ''vbscript:'']"

definition removeDangerousPatterns :: "jsstring \<Rightarrow> jsstring" where
  "removeDangerousPatterns text =
     foldl (\<lambda>cleaned pattern. replace_all pattern True cleaned) text dangerousPatterns"

text \<open>
  \<^verbatim>\<open>escapeHtml\<close> sets the text of an element and reads its markup back; the serialiser
  writes \<open>&\<close>, \<open><\<close>, \<open>>\<close> and the no-break space as entities.
\<close>

definition escape_char :: "jschar \<Rightarrow> jsstring" where
  "escape_char c =
     (if c = 38 then js ''&amp;''
      else if c = 60 then js ''&lt;''
      else if c = 62 then js ''&gt;''
      else if c = 0xA0 then js ''&nbsp;''
      else [c])"

definition escapeHtml :: "jsstring \<Rightarrow> jsstring" where
  "escapeHtml text = concat (map escape_char text)"

definition sanitize :: "platform \<Rightarrow> jsval \<Rightarrow> jsstring \<Rightarrow> jsstring" where
  "sanitize P input profile =
     (if \<not> truthy input then []
      else if profile = js ''strict'' then escapeHtml (removeDangerousPatterns (to_string input))
      else html_sanitize P (removeDangerousPatterns (to_string input)) profile)"

definition control_chars :: regex where
  "control_chars = Cls [(0, 0x1F), (0x7F, 0x7F)]"

definition trim :: "jsstring \<Rightarrow> jsstring" where
  "trim s = rev (dropWhile (in_ranges space_class) (rev (dropWhile (in_ranges space_class) s)))"

definition dangerous_scheme :: regex where
  "dangerous_scheme =
     Seq Bol (Seq (Alt (lits ''javascript'') (Alt (lits ''data'') (lits ''vbscript''))) (Lit 58))"

definition alnum_class :: "(jschar \<times> jschar) list" where
  "alnum_class = [(97, 122), (65, 90), (48, 57)]"

definition urlWhitelist :: "regex list" where
  "urlWhitelist =
     [Seq Bol (lits ''https://chat.openai.com''),
      Seq Bol (lits ''https://chatgpt.com''),
      Seq Bol (lits ''https://claude.ai''),
      Seq Bol (Seq (lits ''https://'') (Seq (plus (Cls alnum_class)) (lits ''.supabase.co'')))]"

definition clean_url :: "jsstring \<Rightarrow> jsstring" where
  "clean_url url = trim (replace_all control_chars False url)"

text \<open>
  \<^verbatim>\<open>sanitizeUrl\<close>: a truthy argument that is not a string has no \<^verbatim>\<open>replace\<close> method.
\<close>

definition sanitizeUrl :: "jsval \<Rightarrow> js_error + jsstring" where
  "sanitizeUrl url =
     (if \<not> truthy url then Inr []
      else (case url of
              Str s \<Rightarrow>
                (if regex_test dangerous_scheme True (clean_url s) then Inr []
                 else Inr (clean_url s))
            | _ \<Rightarrow> Inl TypeError))"

text \<open>What \<^verbatim>\<open>sanitizeUrl\<close> writes with \<^verbatim>\<open>console.warn\<close>.\<close>

definition sanitizeUrl_warnings :: "jsval \<Rightarrow> jsstring list" where
  "sanitizeUrl_warnings url =
     (case url of
        Str s \<Rightarrow>
          (if s = [] \<or> regex_test dangerous_scheme True (clean_url s) then []
           else if list_ex (\<lambda>pattern. regex_test pattern False (clean_url s)) urlWhitelist then []
           else [js ''URL not in whitelist: '' @ clean_url s])
      | _ \<Rightarrow> [])"

definition maxLength :: nat where
  "maxLength = 50000"

definition truncation_marker :: jsstring where
  "truncation_marker = js ''... [truncated]''"

definition sanitizeForStorage :: "platform \<Rightarrow> jsval \<Rightarrow> jsstring" where
  "sanitizeForStorage P content =
     (if \<not> truthy content then []
      else if maxLength < length (sanitize P content (js ''strict''))
      then take maxLength (sanitize P content (js ''strict'')) @ truncation_marker
      else sanitize P content (js ''strict''))"

definition sanitizeMessage :: "platform \<Rightarrow> nat \<Rightarrow> jsval \<Rightarrow> js_error + jsval" where
  "sanitizeMessage P now message =
     (if \<not> truthy message then Inr (Obj [(''role'', Str []), (''content'', Str [])])
      else
        (case (if truthy (get_prop message ''timestamp'')
               then (case date_to_iso P (get_prop message ''timestamp'') of
                       None \<Rightarrow> Inl RangeError | Some t \<Rightarrow> Inr t)
               else Inr (iso_of_time P now)) of
           Inl e \<Rightarrow> Inl e
         | Inr timestamp \<Rightarrow>
             (case (if truthy (get_prop message ''url'')
                    then sanitizeUrl (get_prop message ''url'') else Inr []) of
                Inl e \<Rightarrow> Inl e
              | Inr url \<Rightarrow>
                  Inr (Obj [(''role'', Str (sanitize P (get_prop message ''role'') (js ''strict''))),
                            (''content'', Str (sanitizeForStorage P (get_prop message ''content''))),
                            (''timestamp'', Str timestamp),
                            (''url'', Str url),
                            (''site'', Str (sanitize P (get_prop message ''site'') (js ''strict'')))]))))"

section \<open>background.js: the message dispatcher\<close>

text \<open>
  The branch of the \<^verbatim>\<open>switch\<close> in \<^verbatim>\<open>handleMessage\<close> that is taken, with the argument
  that it passes on; the last two are the replies \<^verbatim>\<open>Unknown message type\<close> and
  \<^verbatim>\<open>Request processing failed\<close>.
\<close>

datatype route =
    StoreMemory jsval
  | SearchMemories jsval
  | GetStats
  | ClearRecent
  | ExportMemories
  | UpdateConfig jsval
  | ToggleEnabled jsval
  | CheckEncryption
  | UnknownMessageType
  | RequestProcessingFailed

definition dispatch :: "jsval \<Rightarrow> route" where
  "dispatch sanitizedRequest =
     (if get_prop sanitizedRequest ''type'' = Str (js ''STORE_MEMORY'')
        then StoreMemory (get_prop sanitizedRequest ''data'')
      else if get_prop sanitizedRequest ''type'' = Str (js ''SEARCH_MEMORIES'')
        then SearchMemories (get_prop sanitizedRequest ''query'')
      else if get_prop sanitizedRequest ''type'' = Str (js ''GET_STATS'') then GetStats
      else if get_prop sanitizedRequest ''type'' = Str (js ''CLEAR_RECENT'') then ClearRecent
      else if get_prop sanitizedRequest ''type'' = Str (js ''EXPORT_MEMORIES'') then ExportMemories
      else if get_prop sanitizedRequest ''type'' = Str (js ''UPDATE_CONFIG'')
        then UpdateConfig (get_prop sanitizedRequest ''config'')
      else if get_prop sanitizedRequest ''type'' = Str (js ''TOGGLE_ENABLED'')
        then ToggleEnabled (get_prop sanitizedRequest ''enabled'')
      else if get_prop sanitizedRequest ''type'' = Str (js ''CHECK_ENCRYPTION'') then CheckEncryption
      else UnknownMessageType)"

definition handleMessage :: "platform \<Rightarrow> nat \<Rightarrow> jsval \<Rightarrow> route" where
  "handleMessage P now request =
     (case sanitizeMessage P now request of
        Inl e \<Rightarrow> RequestProcessingFailed
      | Inr sanitizedRequest \<Rightarrow> dispatch sanitizedRequest)"





text \<open>The literals that every match of a pattern has to read.\<close>

fun mandatory :: "regex \<Rightarrow> jschar list" where
  "mandatory (Lit p) = [p]"
| "mandatory (Seq a b) = mandatory a @ mandatory b"
| "mandatory r = []"

text \<open>\<^verbatim>\<open>Object.keys\<close>\<close>

fun keys :: "jsval \<Rightarrow> string list" where
  "keys (Obj kvs) = map fst kvs"
| "keys v = []"

section \<open>crypto.js: validation and migration\<close>

text \<open>\<^verbatim>\<open>typeof v === 'object'\<close> for a value that is not falsy, and \<^verbatim>\<open>typeof v === 'string'\<close>.\<close>

definition is_object :: "jsval \<Rightarrow> bool" where
  "is_object v = (case v of Arr xs \<Rightarrow> True | Obj kvs \<Rightarrow> True | _ \<Rightarrow> False)"

definition is_string :: "jsval \<Rightarrow> bool" where
  "is_string v = (case v of Str s \<Rightarrow> True | _ \<Rightarrow> False)"

definition urlPattern :: regex where
  "urlPattern =
     Seq Bol (Seq (lits ''https://'') (Seq (plus (Cls alnum_class))
       (Seq (lits ''.supabase.co'') Eol)))"

definition token_class :: "(jschar \<times> jschar) list" where
  "token_class = [(97, 122), (65, 90), (48, 57), (95, 95), (45, 45)]"

definition keyPattern :: regex where
  "keyPattern =
     Seq Bol (Seq (lits ''eyJ'') (Seq (plus (Cls token_class)) (Seq (Lit 46)
       (Seq (plus (Cls token_class)) (Seq (Lit 46) (Seq (plus (Cls token_class)) Eol))))))"

definition validateCredentials :: "jsval \<Rightarrow> bool" where
  "validateCredentials credentials =
     (if \<not> truthy credentials \<or> \<not> is_object credentials then False
      else if \<not> truthy (get_prop credentials ''supabaseUrl'')
              \<or> \<not> is_string (get_prop credentials ''supabaseUrl'') then False
      else if \<not> truthy (get_prop credentials ''supabaseKey'')
              \<or> \<not> is_string (get_prop credentials ''supabaseKey'') then False
      else if \<not> regex_test urlPattern False (to_string (get_prop credentials ''supabaseUrl''))
        then False
      else if \<not> regex_test keyPattern False (to_string (get_prop credentials ''supabaseKey''))
        then False
      else True)"

definition migrateToEncrypted :: "platform \<Rightarrow> jsval \<Rightarrow> jsstring \<Rightarrow> bool io" where
  "migrateToEncrypted P plaintextCreds passphrase =
     try_catch
       (and_then (if validateCredentials plaintextCreds then ret ()
                  else throw (Error (js ''Invalid credential format''))) (\<lambda>_.
        and_then (encryptCredentials P plaintextCreds passphrase) (\<lambda>encrypted.
        and_then (\<lambda>w. storage_set [(''encryptedCredentials'', encrypted),
                                     (''credentialsMigrated'', Bool True),
                                     (''migrationDate'', Num (int (clock w)))] w) (\<lambda>_.
        and_then (storage_remove [''supabaseUrl'', ''supabaseKey'']) (\<lambda>_.
        ret True)))))
       (\<lambda>error. throw error)"

text \<open>\<^verbatim>\<open>decryptCredentials(encryptCredentials(c, p), p)\<close>\<close>

definition credentials_roundtrip :: "platform \<Rightarrow> jsval \<Rightarrow> jsstring \<Rightarrow> jsval io" where
  "credentials_roundtrip P credentials passphrase =
     and_then (encryptCredentials P credentials passphrase)
       (\<lambda>encryptedData. decryptCredentials P encryptedData passphrase)"

section \<open>background.js: the session passphrase\<close>

definition PASSPHRASE_TIMEOUT :: nat where
  "PASSPHRASE_TIMEOUT = 5 * 60 * 1000"

text \<open>\<^verbatim>\<open>sessionPassphrase\<close> is truthy: neither \<^verbatim>\<open>null\<close> nor the empty string.\<close>

definition cached :: "world \<Rightarrow> bool" where
  "cached w = (case sessionPassphrase w of None \<Rightarrow> False | Some p \<Rightarrow> p \<noteq> [])"

text \<open>The text that the encoder sees for the passphrase variable.\<close>

definition passphrase_text :: "jsstring option \<Rightarrow> jsstring" where
  "passphrase_text p = (case p of None \<Rightarrow> js ''null'' | Some s \<Rightarrow> s)"

text \<open>\<^verbatim>\<open>clearTimeout(passphraseTimeout)\<close> followed by \<^verbatim>\<open>setTimeout\<close> with the fixed delay.\<close>

definition reset_timeout :: "unit io" where
  "reset_timeout = modify (\<lambda>w. w\<lparr>passphraseTimeout := Some (clock w + PASSPHRASE_TIMEOUT)\<rparr>)"

definition recover_passphrase :: "platform \<Rightarrow> unit io" where
  "recover_passphrase P w =
     (if cached w then (Inr (), w)
      else if \<not> truthy (storage_get ''installationKey'' w)
        then (Inl (Error (js ''No installation key found'')), w)
      else (case decryptInstallationKey P (to_string (storage_get ''installationKey'' w)) of
              Inl e \<Rightarrow> (Inl e, w)
            | Inr p \<Rightarrow> (Inr (), w\<lparr>sessionPassphrase := Some p\<rparr>)))"

text \<open>
  \<^verbatim>\<open>getCredentials\<close> runs without another task in between; its result is the credentials
  or \<^verbatim>\<open>null\<close>.
\<close>

definition getCredentials :: "platform \<Rightarrow> jsval io" where
  "getCredentials P =
     try_catch
       (\<lambda>w. if \<not> truthy (encryptedCredentials w) then (Inr Null, w)
            else and_then (recover_passphrase P) (\<lambda>_.
                 and_then reset_timeout (\<lambda>_ w'.
                   decryptCredentials P (encryptedCredentials w')
                     (passphrase_text (sessionPassphrase w')) w')) w)
       (\<lambda>error. and_then (modify (\<lambda>w. w\<lparr>sessionPassphrase := None\<rparr>)) (\<lambda>_. ret Null))"

text \<open>The listener of \<^verbatim>\<open>chrome.idle.onStateChanged\<close>.\<close>

definition onIdleStateChanged :: "jsstring \<Rightarrow> world \<Rightarrow> world" where
  "onIdleStateChanged state w =
     (if state = js ''idle'' \<or> state = js ''locked''
      then w\<lparr>sessionPassphrase := None, passphraseTimeout := None\<rparr>
      else w)"

text \<open>
  Time passes: the clock moves on, and a pending timer whose time has come runs its callback,
  which clears the passphrase.
\<close>

definition timer_due :: "world \<Rightarrow> bool" where
  "timer_due w = (case passphraseTimeout w of None \<Rightarrow> False | Some d \<Rightarrow> d \<le> clock w)"

definition elapse :: "nat \<Rightarrow> world \<Rightarrow> world" where
  "elapse ms w =
     (if timer_due (w\<lparr>clock := clock w + ms\<rparr>)
      then w\<lparr>clock := clock w + ms, sessionPassphrase := None, passphraseTimeout := None\<rparr>
      else w\<lparr>clock := clock w + ms\<rparr>)"

text \<open>
  \<^verbatim>\<open>updateConfig\<close> for a configuration that is a plain object, given by its properties; the
  result is the \<^verbatim>\<open>success\<close> field of its reply.
\<close>

definition updateConfig :: "platform \<Rightarrow> (string \<times> jsval) list \<Rightarrow> bool io" where
  "updateConfig P config =
     try_catch
       (and_then
          (if truthy (get_prop (Obj config) ''supabaseUrl'')
              \<and> truthy (get_prop (Obj config) ''supabaseKey'')
           then (if \<not> validateCredentials (Obj config) then ret False
                 else and_then generateSecurePassphrase (\<lambda>passphrase.
                      and_then (encryptCredentials P
                                  (Obj [(''supabaseUrl'', get_prop (Obj config) ''supabaseUrl''),
                                        (''supabaseKey'', get_prop (Obj config) ''supabaseKey'')])
                                  passphrase) (\<lambda>encrypted.
                      and_then (lift (encryptInstallationKey P passphrase)) (\<lambda>installationKey.
                      and_then (storage_set [(''encryptedCredentials'', encrypted),
                                             (''installationKey'', Str installationKey)]) (\<lambda>_.
                      and_then (modify (\<lambda>w. w\<lparr>encryptedCredentials := encrypted,
                                                 sessionPassphrase := Some passphrase\<rparr>)) (\<lambda>_.
                      and_then reset_timeout (\<lambda>_. ret True)))))))
           else ret True)
          (\<lambda>proceed.
             if \<not> proceed then ret False
             else if filter (\<lambda>kv. fst kv \<noteq> ''supabaseUrl'' \<and> fst kv \<noteq> ''supabaseKey'') config = []
               then ret True
             else and_then
                    (storage_set
                       (filter (\<lambda>kv. fst kv \<noteq> ''supabaseUrl'' \<and> fst kv \<noteq> ''supabaseKey'') config))
                    (\<lambda>_. ret True)))
       (\<lambda>error. ret False)"

text \<open>What can happen to the session state, one step at a time.\<close>

datatype action =
    Elapse nat
  | GetCredentialsCall
  | UpdateConfigCall "(string \<times> jsval) list"
  | IdleStateChanged jsstring

fun act :: "platform \<Rightarrow> action \<Rightarrow> world \<Rightarrow> world" where
  "act P (Elapse ms) w = elapse ms w"
| "act P GetCredentialsCall w = snd (getCredentials P w)"
| "act P (UpdateConfigCall config) w = snd (updateConfig P config w)"
| "act P (IdleStateChanged state) w = onIdleStateChanged state w"

text \<open>
  The salt and the IV that \<^verbatim>\<open>encryptCredentials\<close> draws in a given state, the states after
  each draw, and the blob that it builds.
\<close>

definition salt_of :: "world \<Rightarrow> byte list" where
  "salt_of w = map (entropy w) [drawn w ..< drawn w + 16]"

definition iv_of :: "world \<Rightarrow> byte list" where
  "iv_of w = map (entropy w) [drawn w + 16 ..< drawn w + 28]"

definition blob_of :: "byte list \<Rightarrow> byte list \<Rightarrow> byte list \<Rightarrow> nat \<Rightarrow> jsval" where
  "blob_of ct salt iv t =
     Obj [(''encrypted'', Str (b64_encode (map unat ct))),
          (''salt'', Str (b64_encode (map unat salt))),
          (''iv'', Str (b64_encode (map unat iv))),
          (''version'', Num 1), (''algorithm'', Str (js ''AES-GCM'')),
          (''timestamp'', Num (int t))]"

definition after_salt :: "world \<Rightarrow> world" where
  "after_salt w = w\<lparr>drawn := drawn w + 16, calls := calls w @ [GetRandomValues 16]\<rparr>"

definition after_iv :: "world \<Rightarrow> world" where
  "after_iv w =
     w\<lparr>drawn := drawn w + 28, calls := calls w @ [GetRandomValues 16, GetRandomValues 12]\<rparr>"

definition decrypt_failed :: js_error where
  "decrypt_failed =
     Error (js ''Failed to decrypt credentials - invalid passphrase or corrupted data'')"

text \<open>Credentials without a key, and credentials with a key of more than 65536 characters.\<close>

definition missing_key_credentials :: jsval where
  "missing_key_credentials = Obj [(''supabaseUrl'', Str (js ''https://test.supabase.co''))]"

definition big_credentials :: jsval where
  "big_credentials =
     Obj [(''supabaseUrl'', Str (js ''https://test.supabase.co'')),
          (''supabaseKey'', Str (js ''eyJ'' @ replicate 65536 97 @ js ''.a.a''))]"

text \<open>
  The blob held decrypts with the passphrase held: what a \<^verbatim>\<open>getCredentials\<close> call that
  finds the passphrase goes on to find out.
\<close>

definition decrypts :: "platform \<Rightarrow> world \<Rightarrow> bool" where
  "decrypts P w =
     (case fst (decryptCredentials P (encryptedCredentials w)
                  (passphrase_text (sessionPassphrase w)) w) of
        Inl e \<Rightarrow> False | Inr v \<Rightarrow> True)"

text \<open>A cached passphrase always has its timer pending, due within five minutes.\<close>

definition session_inv :: "world \<Rightarrow> bool" where
  "session_inv w =
     (if cached w
      then (case passphraseTimeout w of
              None \<Rightarrow> False
            | Some d \<Rightarrow> clock w < d \<and> d \<le> clock w + PASSPHRASE_TIMEOUT)
      else True)"

section \<open>A concrete platform\<close>

text \<open>
  Stand-ins for the parameters, used where a statement is evaluated on a concrete input:
  a key derivation that concatenates, a cipher that masks with the key and appends a
  16-byte tag of zeros, and a JSON codec for flat objects of plain ASCII strings.
\<close>

definition demo_derive_key :: "byte list \<Rightarrow> byte list \<Rightarrow> nat \<Rightarrow> byte list option" where
  "demo_derive_key passphrase salt n = Some (salt @ passphrase)"

definition demo_gcm_encrypt :: "byte list \<Rightarrow> byte list \<Rightarrow> byte list \<Rightarrow> byte list option" where
  "demo_gcm_encrypt key iv data = Some (xor_with (iv @ key) data @ replicate 16 0)"

definition demo_gcm_decrypt :: "byte list \<Rightarrow> byte list \<Rightarrow> byte list \<Rightarrow> byte list option" where
  "demo_gcm_decrypt key iv c =
     (if length c < 16 \<or> drop (length c - 16) c \<noteq> replicate 16 0 then None
      else Some (xor_with (iv @ key) (take (length c - 16) c)))"

definition plain_char :: "jschar \<Rightarrow> bool" where
  "plain_char c = (32 \<le> c \<and> c < 127 \<and> c \<noteq> 34 \<and> c \<noteq> 92)"

fun demo_members :: "(string \<times> jsval) list \<Rightarrow> jsstring option" where
  "demo_members [] = Some []"
| "demo_members ((k, Str v) # rest) =
     (if list_all plain_char (js k) \<and> list_all plain_char v
      then (case demo_members rest of
              None \<Rightarrow> None
            | Some r \<Rightarrow>
                Some ([34] @ js k @ [34, 58, 34] @ v @ [34] @ (if rest = [] then [] else [44]) @ r))
      else None)"
| "demo_members ((k, v) # rest) = None"

fun demo_json_stringify :: "jsval \<Rightarrow> jsstring option" where
  "demo_json_stringify (Obj kvs) =
     (case demo_members kvs of None \<Rightarrow> None | Some m \<Rightarrow> Some ([123] @ m @ [125]))"
| "demo_json_stringify v = None"

fun demo_parse_members :: "nat \<Rightarrow> jsstring \<Rightarrow> (string \<times> jsval) list option" where
  "demo_parse_members 0 s = None"
| "demo_parse_members (Suc n) [] = None"
| "demo_parse_members (Suc n) (q1 # s1) =
     (case drop (length (takeWhile (\<lambda>c. c \<noteq> 34) s1)) s1 of
        q2 # c # q3 # s3 \<Rightarrow>
          (if q1 = 34 \<and> q2 = 34 \<and> c = 58 \<and> q3 = 34
           then (case drop (length (takeWhile (\<lambda>c. c \<noteq> 34) s3)) s3 of
                   [q4, e] \<Rightarrow>
                     (if q4 = 34 \<and> e = 125
                      then Some [(map char_of (takeWhile (\<lambda>c. c \<noteq> 34) s1),
                                  Str (takeWhile (\<lambda>c. c \<noteq> 34) s3))]
                      else None)
                 | q4 # sep # s5 \<Rightarrow>
                     (if q4 = 34 \<and> sep = 44
                      then (case demo_parse_members n s5 of
                              None \<Rightarrow> None
                            | Some r \<Rightarrow>
                                Some ((map char_of (takeWhile (\<lambda>c. c \<noteq> 34) s1),
                                       Str (takeWhile (\<lambda>c. c \<noteq> 34) s3)) # r))
                      else None)
                 | _ \<Rightarrow> None)
           else None)
      | _ \<Rightarrow> None)"

definition demo_json_parse :: "jsstring \<Rightarrow> jsval option" where
  "demo_json_parse s =
     (case s of
        [] \<Rightarrow> None
      | c # rest \<Rightarrow>
          (if c \<noteq> 123 then None
           else if rest = [125] then Some (Obj [])
           else (case demo_parse_members (length rest) rest of
                   None \<Rightarrow> None
                 | Some kvs \<Rightarrow> Some (Obj kvs))))"

definition demo_html_sanitize :: "jsstring \<Rightarrow> jsstring \<Rightarrow> jsstring" where
  "demo_html_sanitize text profile = filter (\<lambda>c. c \<noteq> 60 \<and> c \<noteq> 62) text"

definition demo_date_to_iso :: "jsval \<Rightarrow> jsstring option" where
  "demo_date_to_iso v =
     (if v = Str (js ''2024-01-01T00:00:00Z'') then Some (js ''2024-01-01T00:00:00.000Z'')
      else None)"

definition demo_iso_of_time :: "nat \<Rightarrow> jsstring" where
  "demo_iso_of_time t = js ''2023-11-14T22:13:20.000Z''"

definition demo_platform :: platform where
  "demo_platform =
     \<lparr>derive_key = demo_derive_key, gcm_encrypt = demo_gcm_encrypt,
      gcm_decrypt = demo_gcm_decrypt, json_stringify = demo_json_stringify,
      json_parse = demo_json_parse, runtime_id = js ''abcdefghijklmnopabcdefghijklmnop'',
      html_sanitize = demo_html_sanitize, date_to_iso = demo_date_to_iso,
      iso_of_time = demo_iso_of_time, max_arguments = 120000\<rparr>"

definition zero_entropy :: "nat \<Rightarrow> byte" where
  "zero_entropy i = 0"

definition counting_entropy :: "nat \<Rightarrow> byte" where
  "counting_entropy i = of_nat (37 * i + 11)"

definition demo_world :: world where
  "demo_world =
     \<lparr>entropy = counting_entropy, drawn = 0, calls = [], clock = 1700000000000, storage = [],
      encryptedCredentials = Null, sessionPassphrase = None, passphraseTimeout = None\<rparr>"

definition demo_credentials :: jsval where
  "demo_credentials =
     Obj [(''supabaseUrl'', Str (js ''https://test.supabase.co'')),
          (''supabaseKey'', Str (js ''eyJhbGci.eyJyb2xl.c2ln''))]"
text \<open>A store that still holds the plaintext fields.\<close>

definition legacy_world :: world where
  "legacy_world =
     demo_world\<lparr>storage := [(''supabaseUrl'', Str (js ''https://test.supabase.co'')),
                            (''supabaseKey'', Str (js ''eyJhbGci.eyJyb2xl.c2ln''))]\<rparr>"




section \<open>Base64 round trip\<close>

lemma b64_value_char: "n < 64 \<Longrightarrow> b64_value (b64_char n) = Some n"
  by (auto simp: b64_value_def b64_char_def)

lemma b64_char_not_ws: "\<not> ascii_whitespace (b64_char n)"
  by (auto simp: ascii_whitespace_def b64_char_def)

lemma b64_char_not_pad: "b64_char n \<noteq> 61"
  by (auto simp: b64_char_def)

lemma length_b64_encode: "length (b64_encode s) = 4 * ((length s + 2) div 3)"
proof (induction s rule: b64_encode.induct)
  case (1 a b c rest)
  have "(length (a # b # c # rest) + 2) div 3 = Suc ((length rest + 2) div 3)"
    by simp
  with 1 show ?case by simp
qed simp_all

lemma length_b64_encode_mod4: "length (b64_encode s) mod 4 = 0"
  by (simp add: length_b64_encode)

lemma pad_not_ws: "\<not> ascii_whitespace 61"
  by (simp add: ascii_whitespace_def)

lemma b64_encode_no_ws: "filter (\<lambda>c. \<not> ascii_whitespace c) (b64_encode s) = b64_encode s"
  by (induction s rule: b64_encode.induct) (simp_all add: b64_char_not_ws pad_not_ws)

lemma strip_padding_four:
  assumes "length E mod 4 = 0" and "x4 \<noteq> 61"
  shows "strip_padding (x1 # x2 # x3 # x4 # E) = x1 # x2 # x3 # x4 # strip_padding E"
proof (cases E)
  case Nil
  then show ?thesis using assms by (simp add: strip_padding_def)
next
  case (Cons e1 E1)
  show ?thesis
  proof (cases E1)
    case Nil
    then show ?thesis using assms Cons by simp
  next
    case (Cons e2 E2)
    have m: "length (x1 # x2 # x3 # x4 # E) mod 4 = 0" using assms(1) by simp
    show ?thesis
      unfolding strip_padding_def using m assms(1) \<open>E = e1 # E1\<close> Cons by simp
  qed
qed

lemma sextet_bounds:
  fixes a b c :: nat
  assumes "a < 256" "b < 256" "c < 256"
  shows "a div 4 < 64" "(a mod 4) * 16 + b div 16 < 64" "(b mod 16) * 4 + c div 64 < 64"
    "c mod 64 < 64" "(a mod 4) * 16 < 64" "(b mod 16) * 4 < 64"
proof -
  have m: "a mod 4 < 4" "b mod 16 < 16" by simp_all
  have d: "a div 4 < 64" "b div 16 < 16" "c div 64 < 4"
    using assms by (simp_all add: less_mult_imp_div_less)
  show "a div 4 < 64" by (rule d)
  show "(a mod 4) * 16 + b div 16 < 64" using m d by linarith
  show "(b mod 16) * 4 + c div 64 < 64" using m d by linarith
  show "c mod 64 < 64" by simp
  show "(a mod 4) * 16 < 64" using m by linarith
  show "(b mod 16) * 4 < 64" using m by linarith
qed

lemma b64_decode_triple:
  fixes a b c :: nat
  assumes "a < 256" "b < 256" "c < 256"
  shows "b64_decode (a div 4 # ((a mod 4) * 16 + b div 16) # ((b mod 16) * 4 + c div 64) #
           c mod 64 # vs) = a # b # c # b64_decode vs"
proof -
  have d: "b div 16 < 16" "c div 64 < 4"
    using assms by (simp_all add: less_mult_imp_div_less)
  have 1: "(a div 4) * 4 + ((a mod 4) * 16 + b div 16) div 16 = a"
    using d by simp
  have 2: "(((a mod 4) * 16 + b div 16) mod 16) * 16 + ((b mod 16) * 4 + c div 64) div 4 = b"
    using d by simp
  have 3: "(((b mod 16) * 4 + c div 64) mod 4) * 64 + c mod 64 = c"
    using d by simp
  from 1 2 3 show ?thesis by (simp only: b64_decode.simps append_Cons append_Nil)
qed

lemma b64_decode_pair:
  fixes a b :: nat
  assumes "a < 256" "b < 256"
  shows "b64_decode [a div 4, (a mod 4) * 16 + b div 16, (b mod 16) * 4] = [a, b]"
proof -
  have d: "b div 16 < 16" using assms by (simp_all add: less_mult_imp_div_less)
  have 1: "(a div 4) * 4 + ((a mod 4) * 16 + b div 16) div 16 = a"
    using d by simp
  have 2: "(((a mod 4) * 16 + b div 16) mod 16) * 16 + ((b mod 16) * 4) div 4 = b"
    using d by simp
  from 1 2 show ?thesis by (simp only: b64_decode.simps)
qed

lemma b64_decode_single:
  fixes a :: nat
  shows "b64_decode [a div 4, (a mod 4) * 16] = [a]"
proof -
  have "(a div 4) * 4 + ((a mod 4) * 16) div 16 = a" by simp
  then show ?thesis by (simp only: b64_decode.simps)
qed

lemma b64_roundtrip_core:
  "list_all (\<lambda>c. c < 256) s \<Longrightarrow>
   length (strip_padding (b64_encode s)) mod 4 \<noteq> 1 \<and>
   (\<exists>vs. those (map b64_value (strip_padding (b64_encode s))) = Some vs \<and> b64_decode vs = s)"
proof (induction s rule: b64_encode.induct)
  case (1 a b c rest)
  then have ab: "a < 256" "b < 256" "c < 256" and r: "list_all (\<lambda>c. c < 256) rest" by auto
  from 1 r obtain vs where
    L: "length (strip_padding (b64_encode rest)) mod 4 \<noteq> 1" and
    V: "those (map b64_value (strip_padding (b64_encode rest))) = Some vs" and
    D: "b64_decode vs = rest" by blast
  have S: "strip_padding (b64_encode (a # b # c # rest)) =
      b64_char (a div 4) # b64_char ((a mod 4) * 16 + b div 16) #
      b64_char ((b mod 16) * 4 + c div 64) # b64_char (c mod 64) # strip_padding (b64_encode rest)"
    by (simp add: strip_padding_four length_b64_encode_mod4 b64_char_not_pad)
  have T: "those (map b64_value (strip_padding (b64_encode (a # b # c # rest)))) =
      Some (a div 4 # ((a mod 4) * 16 + b div 16) # ((b mod 16) * 4 + c div 64) # c mod 64 # vs)"
    unfolding S using V by (simp add: b64_value_char sextet_bounds[OF ab] del: b64_encode.simps)
  have "length (strip_padding (b64_encode (a # b # c # rest))) mod 4 \<noteq> 1"
    unfolding S using L by simp
  then show ?case
    using T b64_decode_triple[OF ab, of vs] D by (simp del: b64_encode.simps b64_decode.simps)
next
  case (2 a b)
  then have ab: "a < 256" "b < 256" by auto
  have S: "strip_padding (b64_encode [a, b]) =
     [b64_char (a div 4), b64_char ((a mod 4) * 16 + b div 16), b64_char ((b mod 16) * 4)]"
    by (simp add: strip_padding_def b64_char_not_pad)
  have T: "those (map b64_value (strip_padding (b64_encode [a, b]))) =
      Some [a div 4, (a mod 4) * 16 + b div 16, (b mod 16) * 4]"
    unfolding S by (simp add: b64_value_char sextet_bounds[OF ab ab(1)])
  show ?case using T b64_decode_pair[OF ab] S by (simp del: b64_encode.simps b64_decode.simps)
next
  case (3 a)
  then have ab: "a < 256" by auto
  have S: "strip_padding (b64_encode [a]) = [b64_char (a div 4), b64_char ((a mod 4) * 16)]"
    by (simp add: strip_padding_def b64_char_not_pad)
  have T: "those (map b64_value (strip_padding (b64_encode [a]))) =
      Some [a div 4, (a mod 4) * 16]"
    unfolding S by (simp add: b64_value_char sextet_bounds[OF ab ab ab])
  show ?case using T b64_decode_single[of a] S by (simp del: b64_encode.simps b64_decode.simps)
next
  case 4
  show ?case by (simp add: strip_padding_def)
qed

lemma atob_b64_encode: "list_all (\<lambda>c. c < 256) s \<Longrightarrow> atob (b64_encode s) = Inr s"
  using b64_roundtrip_core[of s] by (auto simp: atob_def b64_encode_no_ws Let_def)

lemma atob_btoa: "btoa s = Inr t \<Longrightarrow> atob t = Inr s"
proof -
  assume a: "btoa s = Inr t"
  then have n: "\<not> list_ex (\<lambda>c. 255 < c) s" and t: "t = b64_encode s"
    by (auto simp: btoa_def split: if_splits)
  from n have "list_all (\<lambda>c. c < 256) s"
    by (induction s) auto
  then show ?thesis using t by (simp add: atob_b64_encode)
qed

section \<open>UTF-8 round trip\<close>

lemma split_div_mod:
  fixes x y k :: nat
  assumes "y < k"
  shows "(x * k + y) div k = x" and "(x * k + y) mod k = y"
  using assms by simp_all

lemma offset_mod:
  fixes q :: nat
  shows "q < 32 \<Longrightarrow> (192 + q) mod 32 = q" and "q < 16 \<Longrightarrow> (224 + q) mod 16 = q"
    and "q < 8 \<Longrightarrow> (240 + q) mod 8 = q" and "q < 64 \<Longrightarrow> (128 + q) mod 64 = q"
  using split_div_mod(2)[of q 32 6] split_div_mod(2)[of q 16 14] split_div_mod(2)[of q 8 30]
    split_div_mod(2)[of q 64 2]
  by simp_all

lemma utf8_decode_cp1:
  "cp < 0x80 \<Longrightarrow>
   utf8_decode 0 0 0x80 0xBF (cp # rest) = cp # utf8_decode 0 0 0x80 0xBF rest"
  by simp

lemma utf8_decode_two:
  assumes "2 \<le> q" "q < 32" "r < 64"
  shows "utf8_decode 0 0 0x80 0xBF ((0xC0 + q) # (0x80 + r) # rest)
         = (q * 64 + r) # utf8_decode 0 0 0x80 0xBF rest"
  using assms offset_mod(1)[of q] offset_mod(4)[of r] by simp

lemma utf8_decode_three:
  assumes "q1 < 16" "q2 < 64" "r < 64" "q1 = 0 \<longrightarrow> 32 \<le> q2" "q1 = 13 \<longrightarrow> q2 < 32"
  shows "utf8_decode 0 0 0x80 0xBF ((0xE0 + q1) # (0x80 + q2) # (0x80 + r) # rest)
         = ((q1 * 64 + q2) * 64 + r) # utf8_decode 0 0 0x80 0xBF rest"
  using assms offset_mod(2)[of q1] offset_mod(4)[of q2] offset_mod(4)[of r] by auto

lemma utf8_decode_four:
  assumes "q1 < 5" "q2 < 64" "q3 < 64" "r < 64" "q1 = 0 \<longrightarrow> 16 \<le> q2" "q1 = 4 \<longrightarrow> q2 < 16"
  shows "utf8_decode 0 0 0x80 0xBF
           ((0xF0 + q1) # (0x80 + q2) # (0x80 + q3) # (0x80 + r) # rest)
         = (((q1 * 64 + q2) * 64 + q3) * 64 + r) # utf8_decode 0 0 0x80 0xBF rest"
  using assms offset_mod(3)[of q1] offset_mod(4)[of q2] offset_mod(4)[of q3] offset_mod(4)[of r]
  by auto


lemma utf8_of_cp_two:
  assumes "0x80 \<le> cp" "cp < 0x800"
  shows "\<exists>q r. 2 \<le> q \<and> q < 32 \<and> r < 64 \<and> cp = q * 64 + r \<and>
           utf8_of_cp cp = [0xC0 + q, 0x80 + r]"
proof -
  define q where "q = cp div 64"
  define r where "r = cp mod 64"
  have e: "cp = q * 64 + r" and r: "r < 64" by (simp_all add: q_def r_def)
  have "2 \<le> q" "q < 32" using assms e r by linarith+
  moreover have "utf8_of_cp cp = [0xC0 + q, 0x80 + r]"
    using assms by (simp add: utf8_of_cp_def q_def r_def)
  ultimately show ?thesis using e r by blast
qed

lemma utf8_of_cp_three:
  assumes "0x800 \<le> cp" "cp < 0x10000" "\<not> (0xD800 \<le> cp \<and> cp \<le> 0xDFFF)"
  shows "\<exists>q1 q2 r. q1 < 16 \<and> q2 < 64 \<and> r < 64 \<and> (q1 = 0 \<longrightarrow> 32 \<le> q2) \<and>
           (q1 = 13 \<longrightarrow> q2 < 32) \<and> cp = (q1 * 64 + q2) * 64 + r \<and>
           utf8_of_cp cp = [0xE0 + q1, 0x80 + q2, 0x80 + r]"
proof -
  define m where "m = cp div 64"
  define r where "r = cp mod 64"
  define q1 where "q1 = m div 64"
  define q2 where "q2 = m mod 64"
  have e: "cp = m * 64 + r" and r: "r < 64" by (simp_all add: m_def r_def)
  have f: "m = q1 * 64 + q2" and q2: "q2 < 64" by (simp_all add: q1_def q2_def)
  have d: "cp div 4096 = q1" unfolding q1_def m_def by (simp add: div_mult2_eq)
  have b: "q1 < 16" "q1 = 0 \<longrightarrow> 32 \<le> q2" "q1 = 13 \<longrightarrow> q2 < 32"
    using assms e r f q2 by linarith+
  have "utf8_of_cp cp = [0xE0 + q1, 0x80 + q2, 0x80 + r]"
    using assms(1,2) d by (simp add: utf8_of_cp_def) (simp add: q2_def m_def r_def)
  moreover have "cp = (q1 * 64 + q2) * 64 + r" using e f by simp
  ultimately show ?thesis using b q2 r by blast
qed

lemma utf8_of_cp_four:
  assumes "0x10000 \<le> cp" "cp < 0x110000"
  shows "\<exists>q1 q2 q3 r. q1 < 5 \<and> q2 < 64 \<and> q3 < 64 \<and> r < 64 \<and> (q1 = 0 \<longrightarrow> 16 \<le> q2) \<and>
           (q1 = 4 \<longrightarrow> q2 < 16) \<and> cp = ((q1 * 64 + q2) * 64 + q3) * 64 + r \<and>
           utf8_of_cp cp = [0xF0 + q1, 0x80 + q2, 0x80 + q3, 0x80 + r]"
proof -
  define m where "m = cp div 64"
  define r where "r = cp mod 64"
  define n where "n = m div 64"
  define q3 where "q3 = m mod 64"
  define q1 where "q1 = n div 64"
  define q2 where "q2 = n mod 64"
  have e: "cp = m * 64 + r" and r: "r < 64" by (simp_all add: m_def r_def)
  have f: "m = n * 64 + q3" and q3: "q3 < 64" by (simp_all add: n_def q3_def)
  have g: "n = q1 * 64 + q2" and q2: "q2 < 64" by (simp_all add: q1_def q2_def)
  have d: "cp div 4096 = n" unfolding n_def m_def by (simp add: div_mult2_eq)
  have d2: "cp div 262144 = q1" unfolding q1_def n_def m_def by (simp add: div_mult2_eq)
  have b: "q1 < 5" "q1 = 0 \<longrightarrow> 16 \<le> q2" "q1 = 4 \<longrightarrow> q2 < 16"
    using assms e r f q3 g q2 by linarith+
  have "utf8_of_cp cp = [0xF0 + q1, 0x80 + q2, 0x80 + q3, 0x80 + r]"
    using assms d d2 by (simp add: utf8_of_cp_def) (simp add: q2_def q3_def m_def r_def)
  moreover have "cp = ((q1 * 64 + q2) * 64 + q3) * 64 + r" using e f g by simp
  ultimately show ?thesis using b q2 q3 r by blast
qed

lemma utf8_decode_of_cp:
  assumes "scalar cp"
  shows "utf8_decode 0 0 0x80 0xBF (utf8_of_cp cp @ rest) = cp # utf8_decode 0 0 0x80 0xBF rest"
proof -
  consider "cp < 0x80" | "0x80 \<le> cp" "cp < 0x800" | "0x800 \<le> cp" "cp < 0x10000"
    | "0x10000 \<le> cp" by linarith
  then show ?thesis
  proof cases
    case 1
    then show ?thesis by (simp add: utf8_of_cp_def)
  next
    case 2
    from utf8_of_cp_two[OF 2] obtain q r where
      "2 \<le> q" "q < 32" "r < 64" "cp = q * 64 + r" "utf8_of_cp cp = [0xC0 + q, 0x80 + r]"
      by blast
    then show ?thesis using utf8_decode_two[of q r rest] by (simp del: utf8_decode.simps)
  next
    case 3
    have ns: "\<not> (0xD800 \<le> cp \<and> cp \<le> 0xDFFF)" using assms by (simp add: scalar_def)
    from utf8_of_cp_three[OF 3 ns] obtain q1 q2 r where
      "q1 < 16" "q2 < 64" "r < 64" "q1 = 0 \<longrightarrow> 32 \<le> q2" "q1 = 13 \<longrightarrow> q2 < 32"
      "cp = (q1 * 64 + q2) * 64 + r" "utf8_of_cp cp = [0xE0 + q1, 0x80 + q2, 0x80 + r]"
      by blast
    then show ?thesis using utf8_decode_three[of q1 q2 r rest] by (simp del: utf8_decode.simps)
  next
    case 4
    have lt: "cp < 0x110000" using assms by (simp add: scalar_def)
    from utf8_of_cp_four[OF 4 lt] obtain q1 q2 q3 r where
      "q1 < 5" "q2 < 64" "q3 < 64" "r < 64" "q1 = 0 \<longrightarrow> 16 \<le> q2" "q1 = 4 \<longrightarrow> q2 < 16"
      "cp = ((q1 * 64 + q2) * 64 + q3) * 64 + r"
      "utf8_of_cp cp = [0xF0 + q1, 0x80 + q2, 0x80 + q3, 0x80 + r]"
      by blast
    then show ?thesis using utf8_decode_four[of q1 q2 q3 r rest] by (simp del: utf8_decode.simps)
  qed
qed

lemma utf8_decode_concat:
  "list_all scalar cps \<Longrightarrow> utf8_decode 0 0 0x80 0xBF (concat (map utf8_of_cp cps)) = cps"
  by (induction cps) (simp_all add: utf8_decode_of_cp del: utf8_decode.simps(2))

lemma utf8_of_cp_bytes:
  assumes "scalar cp"
  shows "list_all (\<lambda>x. x < 256) (utf8_of_cp cp)"
proof -
  consider "cp < 0x80" | "0x80 \<le> cp" "cp < 0x800" | "0x800 \<le> cp" "cp < 0x10000"
    | "0x10000 \<le> cp" by linarith
  then show ?thesis
  proof cases
    case 1
    then show ?thesis by (simp add: utf8_of_cp_def)
  next
    case 2
    from utf8_of_cp_two[OF 2] show ?thesis by auto
  next
    case 3
    have ns: "\<not> (0xD800 \<le> cp \<and> cp \<le> 0xDFFF)" using assms by (simp add: scalar_def)
    from utf8_of_cp_three[OF 3 ns] show ?thesis by auto
  next
    case 4
    have lt: "cp < 0x110000" using assms by (simp add: scalar_def)
    from utf8_of_cp_four[OF 4 lt] show ?thesis by auto
  qed
qed

lemma unat_of_nat_bytes:
  "list_all (\<lambda>x. x < 256) xs \<Longrightarrow> map unat (map of_nat xs :: byte list) = xs"
  by (induction xs) (simp_all add: unat_of_nat)

lemma code_points_scalar: "well_formed s \<Longrightarrow> list_all scalar (code_points s)"
proof (induction s rule: code_points.induct)
  case 1 show ?case by simp
next
  case (2 c) then show ?case
    by (auto simp: scalar_def is_high_surrogate_def is_low_surrogate_def)
next
  case (3 c d cs)
  show ?case
  proof (cases "is_high_surrogate c")
    case True
    with 3 have l: "is_low_surrogate d" and w: "well_formed cs" by auto
    have "scalar (0x10000 + (c - 0xD800) * 1024 + (d - 0xDC00))"
      using True l unfolding scalar_def is_high_surrogate_def is_low_surrogate_def by linarith
    then show ?thesis using True l w 3 by simp
  next
    case False
    with 3 have c: "c < 0x10000" "\<not> is_low_surrogate c" and w: "well_formed (d # cs)" by auto
    have "scalar c"
      using c False unfolding scalar_def is_high_surrogate_def is_low_surrogate_def by linarith
    then show ?thesis using False c w 3 by simp
  qed
qed

lemma utf16_of_pair:
  assumes "is_high_surrogate c" "is_low_surrogate d"
  shows "utf16_of_cp (0x10000 + (c - 0xD800) * 1024 + (d - 0xDC00)) = [c, d]"
proof -
  define x where "x = c - 0xD800"
  define y where "y = d - 0xDC00"
  have c: "c = 0xD800 + x" and d: "d = 0xDC00 + y" and y: "y < 1024"
    using assms unfolding x_def y_def is_high_surrogate_def is_low_surrogate_def by linarith+
  have "0x10000 + x * 1024 + y - 0x10000 = x * 1024 + y" by simp
  then show ?thesis
    unfolding x_def[symmetric] y_def[symmetric] utf16_of_cp_def
    using split_div_mod[OF y, of x] c d by simp
qed

lemma utf16_of_code_points: "well_formed s \<Longrightarrow> concat (map utf16_of_cp (code_points s)) = s"
proof (induction s rule: code_points.induct)
  case 1 show ?case by simp
next
  case (2 c) then show ?case by (simp add: utf16_of_cp_def)
next
  case (3 c d cs)
  show ?case
  proof (cases "is_high_surrogate c")
    case True
    with 3 have l: "is_low_surrogate d" and w: "well_formed cs" by auto
    show ?thesis using True l w 3 utf16_of_pair[OF True l] by simp
  next
    case False
    with 3 have c: "c < 0x10000" "\<not> is_low_surrogate c" and w: "well_formed (d # cs)" by auto
    then show ?thesis using False 3 by (simp add: utf16_of_cp_def)
  qed
qed

lemma strip_bom_code_points:
  "\<not> starts_with_bom s \<Longrightarrow> strip_bom (code_points s) = code_points s"
proof (cases s rule: code_points.cases)
  case 1 then show ?thesis by (simp add: strip_bom_def)
next
  case (2 c)
  assume "\<not> starts_with_bom s"
  then show ?thesis using 2 by (simp add: strip_bom_def starts_with_bom_def)
next
  case (3 c d cs)
  assume "\<not> starts_with_bom s"
  then show ?thesis using 3
    by (auto simp: strip_bom_def starts_with_bom_def is_high_surrogate_def is_low_surrogate_def)
qed

lemma concat_utf8_bytes:
  "list_all scalar cps \<Longrightarrow> list_all (\<lambda>x. x < 256) (concat (map utf8_of_cp cps))"
  by (induction cps) (simp_all add: utf8_of_cp_bytes)

lemma text_roundtrip:
  assumes "well_formed s" "\<not> starts_with_bom s"
  shows "text_decode (text_encode s) = s"
proof -
  have sc: "list_all scalar (code_points s)" using assms(1) by (rule code_points_scalar)
  have "map unat (text_encode s) = concat (map utf8_of_cp (code_points s))"
    unfolding text_encode_def by (rule unat_of_nat_bytes) (rule concat_utf8_bytes[OF sc])
  then show ?thesis
    unfolding text_decode_def
    by (simp add: utf8_decode_concat[OF sc] strip_bom_code_points[OF assms(2)]
        utf16_of_code_points[OF assms(1)])
qed

lemma length_xor_with: "length (xor_with salt data) = length data"
  by (simp add: xor_with_def)

lemma xor_with_involution: "xor_with salt (xor_with salt data) = data"
  by (rule nth_equalityI) (simp_all add: xor_with_def xor.assoc)

lemma unat_bytes: "list_all (\<lambda>c. c < 256) (map unat (bs :: byte list))"
proof -
  have "unat b < 256" for b :: byte using unsigned_less[of b, where 'a=nat] by simp
  then show ?thesis by (simp add: list_all_iff)
qed

lemma of_nat_unat_bytes: "map (of_nat \<circ> unat) (bs :: byte list) = bs"
  by (simp add: comp_def)

lemma btoa_bytes: "btoa (map unat (bs :: byte list)) = Inr (b64_encode (map unat bs))"
proof -
  have "\<not> list_ex (\<lambda>c. 255 < c) (map unat bs)"
    using unat_bytes[of bs] by (induction bs) auto
  then show ?thesis by (simp add: btoa_def)
qed

section \<open>Generated passphrases\<close>

lemma generateSecurePassphrase_eq:
  "generateSecurePassphrase w =
     (Inr (b64_encode (map unat (map (entropy w) [drawn w ..< drawn w + 32]))),
      w\<lparr>calls := calls w @ [GetRandomValues 32], drawn := drawn w + 32\<rparr>)"
  by (simp add: generateSecurePassphrase_def getRandomValues_def and_then_def called_def
      modify_def lift_def arrayBufferToBase64_def btoa_bytes)

lemma generateSecurePassphrase_length:
  "\<exists>p. fst (generateSecurePassphrase w) = Inr p \<and> length p = 44"
  by (simp add: generateSecurePassphrase_eq length_b64_encode)

lemma replicate_32:
  "replicate 32 x = [x, x, x, x, x, x, x, x, x, x, x, x, x, x, x, x,
                     x, x, x, x, x, x, x, x, x, x, x, x, x, x, x, x]"
  by (simp add: eval_nat_numeral)

text \<open>
  C7: the passphrase is the base64 text of 32 random bytes, so its length is always 44,
  but nothing makes every character class occur. When the 32 bytes drawn are all zero the
  passphrase is 43 times \<open>A\<close> and \<open>=\<close>: no lowercase letter and no digit.
\<close>

theorem generateSecurePassphrase_no_classes:
  "fst (generateSecurePassphrase (demo_world\<lparr>entropy := zero_entropy\<rparr>)) =
     Inr (js ''AAAAAAAAAAAAAAAAAAAAAAAAAAAAAAAAAAAAAAAAAAA='') \<and>
   \<not> list_ex is_lower (js ''AAAAAAAAAAAAAAAAAAAAAAAAAAAAAAAAAAAAAAAAAAA='') \<and>
   \<not> list_ex is_digit (js ''AAAAAAAAAAAAAAAAAAAAAAAAAAAAAAAAAAAAAAAAAAA='')"
proof -
  have z: "map (unat \<circ> zero_entropy) [0..<32] = replicate 32 0"
    by (simp add: zero_entropy_def comp_def map_replicate_const)
  have e: "b64_encode (replicate 32 0) = js ''AAAAAAAAAAAAAAAAAAAAAAAAAAAAAAAAAAAAAAAAAAA=''"
    unfolding replicate_32 by (simp add: b64_char_def js_def)
  have g: "fst (generateSecurePassphrase (demo_world\<lparr>entropy := zero_entropy\<rparr>)) =
     Inr (js ''AAAAAAAAAAAAAAAAAAAAAAAAAAAAAAAAAAAAAAAAAAA='')"
    unfolding generateSecurePassphrase_eq by (simp add: demo_world_def z e)
  have c: "\<not> list_ex is_lower (js ''AAAAAAAAAAAAAAAAAAAAAAAAAAAAAAAAAAAAAAAAAAA='')"
    "\<not> list_ex is_digit (js ''AAAAAAAAAAAAAAAAAAAAAAAAAAAAAAAAAAAAAAAAAAA='')"
    by (simp_all add: js_def is_lower_def is_digit_def)
  from g c show ?thesis by blast
qed

section \<open>The installation key\<close>

lemma upt_small:
  "[0..<1] = [0]" "[0..<2] = [0, 1]" "[0..<3] = [0, 1, 2]" "[0..<4] = [0, 1, 2, 3]"
  by (simp_all add: upt_rec)

lemmas eval_installation_key =
  installationKey_roundtrip_def encryptInstallationKey_def decryptInstallationKey_def
  demo_platform_def text_encode_def text_decode_def is_high_surrogate_def is_low_surrogate_def
  utf8_of_cp_def js_def xor_with_def upt_small btoa_def atob_def b64_char_def b64_value_def
  strip_padding_def ascii_whitespace_def strip_bom_def utf16_of_cp_def Let_def

lemma text_encode_ascii: "list_all (\<lambda>c. c < 128) s \<Longrightarrow> text_encode s = map of_nat s"
proof (induction s rule: code_points.induct)
  case 1
  show ?case by (simp add: text_encode_def)
next
  case (2 c)
  then show ?case
    by (simp add: text_encode_def utf8_of_cp_def is_high_surrogate_def is_low_surrogate_def)
next
  case (3 c d cs)
  have ns: "\<not> is_high_surrogate c \<and> \<not> is_low_surrogate c"
    using "3.prems" by (simp add: is_high_surrogate_def is_low_surrogate_def)
  have r: "list_all (\<lambda>c. c < 128) (d # cs)" using "3.prems" by simp
  have n1: "\<not> (is_high_surrogate c \<and> is_low_surrogate d)"
    and n2: "\<not> (is_high_surrogate c \<or> is_low_surrogate c)" using ns by simp_all
  have "text_encode (d # cs) = map of_nat (d # cs)" using "3.IH"(3)[OF n1 n2 r] .
  then show ?case using ns "3.prems"
    by (simp add: text_encode_def utf8_of_cp_def)
qed

lemma ascii_well_formed: "list_all (\<lambda>c. c < 128) s \<Longrightarrow> well_formed s"
  by (induction s rule: well_formed.induct)
     (simp_all add: is_high_surrogate_def is_low_surrogate_def)

lemma ascii_no_bom: "list_all (\<lambda>c. c < 128) s \<Longrightarrow> \<not> starts_with_bom s"
  by (cases s) (simp_all add: starts_with_bom_def)

lemma b64_char_ascii: "b64_char n < 128"
  by (auto simp: b64_char_def)

lemma b64_encode_ascii: "list_all (\<lambda>c. c < 128) (b64_encode s)"
  by (induction s rule: b64_encode.induct) (simp_all add: b64_char_ascii)

text \<open>More bytes than one call takes arguments: the spread call throws.\<close>

lemma encryptInstallationKey_too_long:
  "max_arguments P < length (text_encode p) \<Longrightarrow> encryptInstallationKey P p = Inl RangeError"
  by (simp add: encryptInstallationKey_def length_xor_with)

lemma installationKey_roundtrip_too_long:
  "installationKey_roundtrip demo_platform (replicate 130000 97) = Inl RangeError"
proof -
  have a: "list_all (\<lambda>c. c < 128) (replicate 130000 (97::nat))" by (simp add: list_all_iff)
  have "max_arguments demo_platform < length (text_encode (replicate 130000 97))"
    unfolding text_encode_ascii[OF a] by (simp add: demo_platform_def)
  then show ?thesis
    by (simp add: installationKey_roundtrip_def encryptInstallationKey_too_long)
qed

lemma installationKey_roundtrip_text:
  assumes "well_formed p" "\<not> starts_with_bom p" "length (text_encode p) \<le> max_arguments P"
  shows "installationKey_roundtrip P p = Inr p"
  unfolding installationKey_roundtrip_def encryptInstallationKey_def decryptInstallationKey_def
  using assms(3)
  by (simp add: length_xor_with btoa_bytes atob_b64_encode[OF unat_bytes] of_nat_unat_bytes
      xor_with_involution text_roundtrip[OF assms(1,2)])

lemma installationKey_roundtrip_generated:
  assumes "44 \<le> max_arguments P"
  shows "\<exists>g. fst (generateSecurePassphrase w) = Inr g \<and> installationKey_roundtrip P g = Inr g"
proof -
  define g where "g = b64_encode (map unat (map (entropy w) [drawn w ..< drawn w + 32]))"
  have a: "list_all (\<lambda>c. c < 128) g" unfolding g_def by (rule b64_encode_ascii)
  have l: "length g = 44" unfolding g_def by (simp add: length_b64_encode)
  have "length (text_encode g) \<le> max_arguments P"
    unfolding text_encode_ascii[OF a] using l assms by simp
  then have "installationKey_roundtrip P g = Inr g"
    by (rule installationKey_roundtrip_text[OF ascii_well_formed[OF a] ascii_no_bom[OF a]])
  moreover have "fst (generateSecurePassphrase w) = Inr g"
    unfolding generateSecurePassphrase_eq g_def by simp
  ultimately show ?thesis by blast
qed

text \<open>
  C10 (amended). For every extension identifier and every passphrase that is a well-formed
  UTF-16 string, does not start with the byte order mark U+FEFF, and has no more UTF-8 bytes
  than one call takes arguments, \<^verbatim>\<open>decryptInstallationKey(encryptInstallationKey(p))\<close>
  returns \<open>p\<close>: encoding to bytes, masking with the identifier bytes cyclically and base64
  are undone in reverse order. Every passphrase that \<^verbatim>\<open>generateSecurePassphrase\<close> returns,
  the only kind that the callers in \<^verbatim>\<open>background.js\<close> pass, is such a string of 44
  characters.
\<close>

theorem installation_key_roundtrip:
  "(well_formed p \<and> \<not> starts_with_bom p \<and> length (text_encode p) \<le> max_arguments P \<longrightarrow>
      installationKey_roundtrip P p = Inr p) \<and>
   (44 \<le> max_arguments P \<longrightarrow>
      (\<exists>g. fst (generateSecurePassphrase w) = Inr g \<and> length g = 44 \<and>
           installationKey_roundtrip P g = Inr g))"
  using installationKey_roundtrip_text[of p P] installationKey_roundtrip_generated[of P w]
    generateSecurePassphrase_length[of w]
  by auto

theorem installation_key_roundtrip_witness:
  "well_formed (js ''s3cret+/Zz='') \<and> \<not> starts_with_bom (js ''s3cret+/Zz='') \<and>
   length (text_encode (js ''s3cret+/Zz='')) \<le> max_arguments demo_platform \<and>
   installationKey_roundtrip demo_platform (js ''s3cret+/Zz='') = Inr (js ''s3cret+/Zz='') \<and>
   44 \<le> max_arguments demo_platform \<and>
   (\<exists>g. fst (generateSecurePassphrase demo_world) = Inr g \<and> length g = 44 \<and>
        installationKey_roundtrip demo_platform g = Inr g)"
proof -
  have a: "list_all (\<lambda>c. c < 128) (js ''s3cret+/Zz='')" by (simp add: js_def)
  have l: "length (text_encode (js ''s3cret+/Zz='')) \<le> max_arguments demo_platform"
    unfolding text_encode_ascii[OF a] by (simp add: js_def demo_platform_def)
  have m: "44 \<le> max_arguments demo_platform" by (simp add: demo_platform_def)
  from ascii_well_formed[OF a] ascii_no_bom[OF a] l m
    installation_key_roundtrip [of "js ''s3cret+/Zz=''" demo_platform demo_world]
  show ?thesis by blast
qed

text \<open>
  C10 as stated fails: a passphrase that is a lone surrogate comes back as U+FFFD, and a
  leading byte order mark is dropped by the decoder.
\<close>

theorem installation_key_roundtrip_counterexample:
  "installationKey_roundtrip demo_platform [0xD800] = Inr [0xFFFD] \<and>
   installationKey_roundtrip demo_platform [0xFEFF, 0x41] = Inr [0x41]"
  by (simp add: eval_installation_key)

section \<open>URL sanitization\<close>







lemma test_from_Bol_later: "test_from (Seq Bol R) ci (Some c) s = False"
  by (induction s arbitrary: c) simp_all

lemma test_from_Bol: "test_from (Seq Bol R) ci None s = (rx R ci (None, s) \<noteq> [])"
  by (cases s) (simp_all add: test_from_Bol_later)



section \<open>Inputs that no dangerous pattern matches\<close>

lemma star_from_suffix:
  assumes "\<And>st st'. st' \<in> set (step st) \<Longrightarrow> set (snd st') \<subseteq> set (snd st)"
  shows "st' \<in> set (star_from step n st) \<Longrightarrow> set (snd st') \<subseteq> set (snd st)"
proof (induction n arbitrary: st st')
  case 0
  then show ?case by simp
next
  case (Suc n)
  from Suc.prems consider "st' = st"
    | st1 where "st1 \<in> set (step st)" "st' \<in> set (star_from step n st1)"
    by auto
  then show ?case
  proof cases
    case 1 then show ?thesis by simp
  next
    case 2
    then show ?thesis using Suc.IH[of st' st1] assms[of st1 st] by blast
  qed
qed

lemma rx_chars: "st' \<in> set (rx r ci st) \<Longrightarrow> set (snd st') \<subseteq> set (snd st)"
proof (induction r arbitrary: st st')
  case (Seq r1 r2)
  then obtain st1 where "st1 \<in> set (rx r1 ci st)" "st' \<in> set (rx r2 ci st1)" by auto
  then show ?case using Seq.IH(1)[of st1 st] Seq.IH(2)[of st' st1] by blast
next
  case (Star r)
  then show ?case using star_from_suffix[of "rx r ci" st' "length (snd st)" st] by auto
next
  case (Alt r1 r2)
  then have "st' \<in> set (rx r1 ci st) \<or> st' \<in> set (rx r2 ci st)" by simp
  then show ?case using Alt.IH(1)[of st' st] Alt.IH(2)[of st' st] by blast
qed (auto split: list.splits if_splits)

lemma rx_mandatory:
  "p \<in> set (mandatory r) \<Longrightarrow> \<forall>c\<in>set (snd st). \<not> lit_match ci p c \<Longrightarrow> rx r ci st = []"
proof (induction r arbitrary: st)
  case (Lit q)
  then show ?case by (cases "snd st") auto
next
  case (Seq r1 r2)
  show ?case
  proof (cases "p \<in> set (mandatory r1)")
    case True
    then show ?thesis using Seq.IH(1)[of st] Seq.prems(2) by simp
  next
    case False
    then have m: "p \<in> set (mandatory r2)" using Seq.prems(1) by simp
    have "rx r2 ci st1 = []" if "st1 \<in> set (rx r1 ci st)" for st1
      using Seq.IH(2)[OF m, of st1] rx_chars[OF that] Seq.prems(2) by blast
    then show ?thesis by simp
  qed
qed simp_all

lemma replace_scan_no_match:
  "p \<in> set (mandatory r) \<Longrightarrow> \<forall>c\<in>set s. \<not> lit_match ci p c \<Longrightarrow>
   replace_scan r ci 0 pv s = s"
proof (induction s arbitrary: pv)
  case Nil
  show ?case by simp
next
  case (Cons c cs)
  have "rx r ci (pv, c # cs) = []"
    using rx_mandatory[OF Cons.prems(1), of "(pv, c # cs)" ci] Cons.prems(2) by simp
  then show ?case using Cons by simp
qed

lemma replace_all_no_match:
  "p \<in> set (mandatory r) \<Longrightarrow> \<forall>c\<in>set s. \<not> lit_match ci p c \<Longrightarrow> replace_all r ci s = s"
  by (simp add: replace_all_def replace_scan_no_match)

lemma mandatory_lits: "mandatory (lits xs) = js xs"
  by (induction xs) (simp_all add: js_def)

lemma mandatory_element_block:
  "mandatory (element_block tag) = js (''<'' @ tag) @ js (''</'' @ tag @ ''>'')"
  by (simp add: element_block_def mandatory_lits) (simp add: js_def)

lemma lit_match_symbol:
  "lit_match True 60 c = (c = 60)" "lit_match True 58 c = (c = 58)" "lit_match True 61 c = (c = 61)"
  by (auto simp: lit_match_def ascii_upper_def is_lower_def)

text \<open>Every dangerous pattern has to read one of \<open><\<close>, \<open>:\<close> and \<open>=\<close>.\<close>

lemma removeDangerousPatterns_plain:
  assumes "60 \<notin> set s" "58 \<notin> set s" "61 \<notin> set s"
  shows "removeDangerousPatterns s = s"
proof -
  have lt: "\<forall>c\<in>set s. \<not> lit_match True 60 c" using assms by (auto simp: lit_match_symbol)
  have co: "\<forall>c\<in>set s. \<not> lit_match True 58 c" using assms by (auto simp: lit_match_symbol)
  have eq: "\<forall>c\<in>set s. \<not> lit_match True 61 c" using assms by (auto simp: lit_match_symbol)
  have e: "replace_all (element_block tag) True s = s" for tag
    by (rule replace_all_no_match[OF _ lt]) (simp add: mandatory_element_block js_def)
  have 2: "replace_all (lits ''javascript:'') True s = s"
    by (rule replace_all_no_match[OF _ co]) (simp add: mandatory_lits js_def)
  have 3: "replace_all (Seq (lits ''on'') (Seq (plus (Cls word_class))
             (Seq (Star (Cls space_class)) (Lit 61)))) True s = s"
    by (rule replace_all_no_match[OF _ eq]) (simp add: plus_def)
  have 6: "replace_all (Seq (lits ''<embed'') (Seq WordB (Seq (Star (NCls [(62, 62)])) (Lit 62))))
             True s = s"
    by (rule replace_all_no_match[OF _ lt]) (simp add: mandatory_lits js_def)
  have 8: "replace_all (lits ''data:text/html'') True s = s"
    by (rule replace_all_no_match[OF _ co]) (simp add: mandatory_lits js_def)
  have 9: "replace_all (lits ''vbscript:'') True s = s"
    by (rule replace_all_no_match[OF _ co]) (simp add: mandatory_lits js_def)
  show ?thesis
    unfolding removeDangerousPatterns_def dangerousPatterns_def
    by (simp only: foldl.simps e 2 3 6 8 9)
qed









section \<open>Strict sanitization\<close>

lemma escape_char_set: "60 \<notin> set (escape_char c) \<and> 62 \<notin> set (escape_char c) \<and> 160 \<notin> set (escape_char c)"
  by (simp add: escape_char_def js_def)

lemma escapeHtml_set: "60 \<notin> set (escapeHtml s) \<and> 62 \<notin> set (escapeHtml s) \<and> 160 \<notin> set (escapeHtml s)"
  using escape_char_set by (auto simp: escapeHtml_def)

lemma escapeHtml_plain:
  "38 \<notin> set s \<Longrightarrow> 60 \<notin> set s \<Longrightarrow> 62 \<notin> set s \<Longrightarrow> 160 \<notin> set s \<Longrightarrow> escapeHtml s = s"
  by (induction s) (auto simp: escapeHtml_def escape_char_def)

lemma length_escape_char: "1 \<le> length (escape_char c)"
  by (simp add: escape_char_def js_def)

lemma length_escapeHtml: "length s \<le> length (escapeHtml s)"
proof (induction s)
  case Nil
  show ?case by (simp add: escapeHtml_def)
next
  case (Cons c s)
  then show ?case using length_escape_char[of c] by (simp add: escapeHtml_def)
qed

lemma sanitize_strict:
  "sanitize P (Str s) (js ''strict'') = escapeHtml (removeDangerousPatterns s)"
proof (cases "s = []")
  case True
  have "removeDangerousPatterns [] = []"
    by (simp add: removeDangerousPatterns_plain)
  then show ?thesis using True by (simp add: sanitize_def escapeHtml_def)
next
  case False
  then show ?thesis by (simp add: sanitize_def)
qed

text \<open>
  C5 (amended). For the \<^verbatim>\<open>strict\<close> profile, sanitizing a sanitized string changes nothing
  whenever the sanitized string has none of the characters \<open>&\<close>, \<open>:\<close> and \<open>=\<close>.
\<close>

theorem sanitize_strict_idempotent:
  assumes "38 \<notin> set (sanitize P (Str s) (js ''strict''))"
    and "58 \<notin> set (sanitize P (Str s) (js ''strict''))"
    and "61 \<notin> set (sanitize P (Str s) (js ''strict''))"
  shows "sanitize P (Str (sanitize P (Str s) (js ''strict''))) (js ''strict'') =
         sanitize P (Str s) (js ''strict'')"
proof -
  define t where "t = sanitize P (Str s) (js ''strict'')"
  have e: "60 \<notin> set t" "62 \<notin> set t" "160 \<notin> set t"
    unfolding t_def sanitize_strict using escapeHtml_set by blast+
  have a: "38 \<notin> set t" "58 \<notin> set t" "61 \<notin> set t" using assms unfolding t_def by blast+
  have "removeDangerousPatterns t = t"
    using e(1) a(2,3) by (rule removeDangerousPatterns_plain)
  moreover have "escapeHtml t = t" using a(1) e by (rule escapeHtml_plain)
  ultimately have "sanitize P (Str t) (js ''strict'') = t" by (simp add: sanitize_strict)
  then show ?thesis unfolding t_def .
qed

lemma hello_sanitized: "sanitize P (Str (js ''hello world'')) (js ''strict'') = js ''hello world''"
proof -
  have "removeDangerousPatterns (js ''hello world'') = js ''hello world''"
    by (rule removeDangerousPatterns_plain) (simp_all add: js_def)
  moreover have "escapeHtml (js ''hello world'') = js ''hello world''"
    by (rule escapeHtml_plain) (simp_all add: js_def)
  ultimately show ?thesis by (simp add: sanitize_strict)
qed

theorem sanitize_strict_idempotent_witness:
  "38 \<notin> set (sanitize demo_platform (Str (js ''hello world'')) (js ''strict'')) \<and>
   58 \<notin> set (sanitize demo_platform (Str (js ''hello world'')) (js ''strict'')) \<and>
   61 \<notin> set (sanitize demo_platform (Str (js ''hello world'')) (js ''strict'')) \<and>
   sanitize demo_platform
     (Str (sanitize demo_platform (Str (js ''hello world'')) (js ''strict''))) (js ''strict'') =
   sanitize demo_platform (Str (js ''hello world'')) (js ''strict'')"
proof -
  have h: "38 \<notin> set (sanitize demo_platform (Str (js ''hello world'')) (js ''strict''))"
    "58 \<notin> set (sanitize demo_platform (Str (js ''hello world'')) (js ''strict''))"
    "61 \<notin> set (sanitize demo_platform (Str (js ''hello world'')) (js ''strict''))"
    unfolding hello_sanitized by (simp_all add: js_def)
  from h sanitize_strict_idempotent [OF h] show ?thesis by blast
qed

text \<open>
  C5 as stated fails for the \<^verbatim>\<open>strict\<close> profile: \<open>&\<close> becomes \<open>&amp;\<close>, and sanitizing
  that gives \<open>&amp;amp;\<close>.
\<close>

theorem sanitize_idempotent_counterexample:
  "sanitize demo_platform (Str (js ''&'')) (js ''strict'') = js ''&amp;'' \<and>
   sanitize demo_platform (Str (sanitize demo_platform (Str (js ''&'')) (js ''strict'')))
     (js ''strict'') = js ''&amp;amp;''"
proof -
  have 1: "removeDangerousPatterns (js ''&'') = js ''&''"
    by (rule removeDangerousPatterns_plain) (simp_all add: js_def)
  have 2: "removeDangerousPatterns (js ''&amp;'') = js ''&amp;''"
    by (rule removeDangerousPatterns_plain) (simp_all add: js_def)
  have 3: "escapeHtml (js ''&'') = js ''&amp;''" "escapeHtml (js ''&amp;'') = js ''&amp;amp;''"
    by (simp_all add: escapeHtml_def escape_char_def js_def)
  show ?thesis by (simp add: sanitize_strict 1 2 3)
qed

section \<open>Storage sanitization\<close>

lemma replace_all_replicate:
  assumes "p1 \<in> set (mandatory r)" "p2 \<in> set (mandatory r)"
    and "ascii_upper p1 \<noteq> ascii_upper p2"
  shows "replace_all r True (replicate n c) = replicate n c"
proof (cases "lit_match True p1 c")
  case True
  then have "\<not> lit_match True p2 c" using assms(3) by (simp add: lit_match_def)
  then show ?thesis by (intro replace_all_no_match[OF assms(2)]) simp
next
  case False
  then show ?thesis by (intro replace_all_no_match[OF assms(1)]) simp
qed

lemma removeDangerousPatterns_replicate:
  "removeDangerousPatterns (replicate n c) = replicate n c"
proof -
  have u: "ascii_upper 60 \<noteq> ascii_upper 115" "ascii_upper 106 \<noteq> ascii_upper 97"
    "ascii_upper 111 \<noteq> ascii_upper 110" "ascii_upper 60 \<noteq> ascii_upper 105"
    "ascii_upper 60 \<noteq> ascii_upper 111" "ascii_upper 60 \<noteq> ascii_upper 101"
    "ascii_upper 60 \<noteq> ascii_upper 97" "ascii_upper 100 \<noteq> ascii_upper 97"
    "ascii_upper 118 \<noteq> ascii_upper 98"
    by (simp_all add: ascii_upper_def is_lower_def)
  have 1: "replace_all (element_block ''script'') True (replicate n c) = replicate n c"
    by (rule replace_all_replicate[OF _ _ u(1)]) (simp_all add: mandatory_element_block js_def)
  have 2: "replace_all (lits ''javascript:'') True (replicate n c) = replicate n c"
    by (rule replace_all_replicate[OF _ _ u(2)]) (simp_all add: mandatory_lits js_def)
  have 3: "replace_all (Seq (lits ''on'') (Seq (plus (Cls word_class))
             (Seq (Star (Cls space_class)) (Lit 61)))) True (replicate n c) = replicate n c"
    by (rule replace_all_replicate[OF _ _ u(3)]) (simp_all add: plus_def)
  have 4: "replace_all (element_block ''iframe'') True (replicate n c) = replicate n c"
    by (rule replace_all_replicate[OF _ _ u(4)]) (simp_all add: mandatory_element_block js_def)
  have 5: "replace_all (element_block ''object'') True (replicate n c) = replicate n c"
    by (rule replace_all_replicate[OF _ _ u(5)]) (simp_all add: mandatory_element_block js_def)
  have 6: "replace_all (Seq (lits ''<embed'') (Seq WordB (Seq (Star (NCls [(62, 62)])) (Lit 62))))
             True (replicate n c) = replicate n c"
    by (rule replace_all_replicate[OF _ _ u(6)]) (simp_all add: mandatory_lits js_def)
  have 7: "replace_all (element_block ''applet'') True (replicate n c) = replicate n c"
    by (rule replace_all_replicate[OF _ _ u(7)]) (simp_all add: mandatory_element_block js_def)
  have 8: "replace_all (lits ''data:text/html'') True (replicate n c) = replicate n c"
    by (rule replace_all_replicate[OF _ _ u(8)]) (simp_all add: mandatory_lits js_def)
  have 9: "replace_all (lits ''vbscript:'') True (replicate n c) = replicate n c"
    by (rule replace_all_replicate[OF _ _ u(9)]) (simp_all add: mandatory_lits js_def)
  show ?thesis
    unfolding removeDangerousPatterns_def dangerousPatterns_def
    by (simp only: foldl.simps 1 2 3 4 5 6 7 8 9)
qed

lemma length_truncation_marker: "length truncation_marker = 15"
  by (simp add: truncation_marker_def js_def)

lemma sanitizeForStorage_long:
  assumes "maxLength < n"
  shows "sanitizeForStorage P (Str (replicate n c)) =
         take maxLength (escapeHtml (replicate n c)) @ truncation_marker"
proof -
  have n: "replicate n c \<noteq> []" using assms by auto
  have "maxLength < length (escapeHtml (replicate n c))"
    using assms length_escapeHtml[of "replicate n c"] by simp
  then show ?thesis
    using n by (simp add: sanitizeForStorage_def sanitize_strict removeDangerousPatterns_replicate)
qed

text \<open>
  C6. The result of \<^verbatim>\<open>sanitizeForStorage\<close> is never longer than the limit of 50000 plus
  the 15 characters of the marker; a \<^verbatim>\<open>strict\<close>-sanitized form within the limit is returned
  as it is, with nothing appended; and 60000 times the same character gives 50000 characters
  followed by the marker.
\<close>

theorem sanitizeForStorage_bound:
  "length (sanitizeForStorage P content) \<le> 50000 + length truncation_marker \<and>
   (length (sanitize P content (js ''strict'')) \<le> 50000 \<longrightarrow>
      sanitizeForStorage P content = sanitize P content (js ''strict'')) \<and>
   length (sanitizeForStorage P (Str (replicate 60000 c))) \<le> 50050 \<and>
   drop 50000 (sanitizeForStorage P (Str (replicate 60000 c))) = truncation_marker"
proof -
  have 1: "length (sanitizeForStorage P content) \<le> 50000 + length truncation_marker"
    by (simp add: sanitizeForStorage_def maxLength_def)
  have 2: "length (sanitize P content (js ''strict'')) \<le> 50000 \<longrightarrow>
      sanitizeForStorage P content = sanitize P content (js ''strict'')"
    by (simp add: sanitizeForStorage_def maxLength_def sanitize_def)
  have l: "60000 \<le> length (escapeHtml (replicate 60000 c))"
    using length_escapeHtml[of "replicate 60000 c"] by simp
  have s: "sanitizeForStorage P (Str (replicate 60000 c)) =
         take 50000 (escapeHtml (replicate 60000 c)) @ truncation_marker"
    using sanitizeForStorage_long[of 60000 P c] by (simp add: maxLength_def)
  have 3: "length (sanitizeForStorage P (Str (replicate 60000 c))) \<le> 50050"
    unfolding s using l by (simp add: length_truncation_marker)
  have 4: "drop 50000 (sanitizeForStorage P (Str (replicate 60000 c))) = truncation_marker"
    unfolding s using l by simp
  from 1 2 3 4 show ?thesis by blast
qed

lemma normal_content_sanitized:
  "sanitize P (Str (js ''Normal length content'')) (js ''strict'') = js ''Normal length content''"
proof -
  have "removeDangerousPatterns (js ''Normal length content'') = js ''Normal length content''"
    by (rule removeDangerousPatterns_plain) (simp_all add: js_def)
  moreover have "escapeHtml (js ''Normal length content'') = js ''Normal length content''"
    by (rule escapeHtml_plain) (simp_all add: js_def)
  ultimately show ?thesis by (simp add: sanitize_strict)
qed

theorem sanitizeForStorage_bound_witness:
  "length (sanitize demo_platform (Str (js ''Normal length content'')) (js ''strict'')) \<le> 50000 \<and>
   sanitizeForStorage demo_platform (Str (js ''Normal length content'')) =
     js ''Normal length content''"
proof -
  have h: "length (sanitize demo_platform (Str (js ''Normal length content'')) (js ''strict''))
      \<le> 50000"
    unfolding normal_content_sanitized by (simp add: js_def)
  from h sanitizeForStorage_bound [of demo_platform "Str (js ''Normal length content'')" 0]
  show ?thesis unfolding normal_content_sanitized by blast
qed

section \<open>Message sanitization and the dispatcher\<close>

lemma sanitizeMessage_shape:
  assumes "truthy m" "sanitizeMessage P now m = Inr r"
  shows "\<exists>a b c d e. r = Obj [(''role'', Str a), (''content'', Str b), (''timestamp'', Str c),
                               (''url'', Str d), (''site'', Str e)]"
  using assms by (auto simp: sanitizeMessage_def split: if_splits option.splits sum.splits)

lemma sanitizeMessage_returns:
  assumes "truthy m"
  shows "(\<exists>r. sanitizeMessage P now m = Inr r) =
         ((\<not> truthy (get_prop m ''timestamp'') \<or> date_to_iso P (get_prop m ''timestamp'') \<noteq> None) \<and>
          (\<not> truthy (get_prop m ''url'') \<or> (\<exists>s. get_prop m ''url'' = Str s)))"
  using assms
  by (cases "get_prop m ''url''")
     (auto simp: sanitizeMessage_def sanitizeUrl_def split: if_splits option.splits sum.splits)

lemma handleMessage_sanitized:
  assumes "truthy m" "sanitizeMessage P now m = Inr r"
  shows "handleMessage P now m = UnknownMessageType"
proof -
  from sanitizeMessage_shape[OF assms] obtain a b c d e where
    r: "r = Obj [(''role'', Str a), (''content'', Str b), (''timestamp'', Str c),
                 (''url'', Str d), (''site'', Str e)]" by blast
  have t: "get_prop r ''type'' = Undefined" unfolding r by simp
  have "dispatch r = UnknownMessageType" unfolding dispatch_def t by simp
  then show ?thesis using assms(2) by (simp add: handleMessage_def)
qed

text \<open>
  Where \<^verbatim>\<open>sanitizeMessage\<close> returns for an input that is not falsy, the result has exactly
  the properties \<^verbatim>\<open>role\<close>, \<^verbatim>\<open>content\<close>, \<^verbatim>\<open>timestamp\<close>, \<^verbatim>\<open>url\<close> and \<^verbatim>\<open>site\<close>, in this
  order: \<^verbatim>\<open>type\<close>, \<^verbatim>\<open>data\<close>, \<^verbatim>\<open>query\<close> and \<^verbatim>\<open>config\<close> are absent, and the dispatcher,
  which reads \<^verbatim>\<open>type\<close> from the result, answers \<^verbatim>\<open>Unknown message type\<close>.
\<close>

lemma sanitizeMessage_fields:
  assumes "truthy m" "sanitizeMessage P now m = Inr r"
  shows "keys r = [''role'', ''content'', ''timestamp'', ''url'', ''site''] \<and>
         get_prop r ''type'' = Undefined \<and> get_prop r ''data'' = Undefined \<and>
         get_prop r ''query'' = Undefined \<and> get_prop r ''config'' = Undefined \<and>
         handleMessage P now m = UnknownMessageType"
proof -
  from sanitizeMessage_shape[OF assms] obtain a b c d e where
    r: "r = Obj [(''role'', Str a), (''content'', Str b), (''timestamp'', Str c),
                 (''url'', Str d), (''site'', Str e)]" by blast
  show ?thesis using handleMessage_sanitized[OF assms] unfolding r by simp
qed

lemma demo_request_sanitized:
  "sanitizeMessage demo_platform 0
     (Obj [(''type'', Str (js ''STORE_MEMORY'')),
           (''data'', Obj [(''role'', Str (js ''user'')), (''content'', Str (js ''hi''))])]) =
   Inr (Obj [(''role'', Str []), (''content'', Str []),
             (''timestamp'', Str (js ''2023-11-14T22:13:20.000Z'')),
             (''url'', Str []), (''site'', Str [])])"
  by (simp add: sanitizeMessage_def sanitize_def sanitizeForStorage_def demo_platform_def
      demo_iso_of_time_def)

lemma demo_request_unknown:
  "handleMessage demo_platform 0
     (Obj [(''type'', Str (js ''STORE_MEMORY'')),
           (''data'', Obj [(''role'', Str (js ''user'')), (''content'', Str (js ''hi''))])]) =
   UnknownMessageType"
  using sanitizeMessage_fields[OF _ demo_request_sanitized] by simp

text \<open>
  C9: \<^verbatim>\<open>sanitizeMessage\<close> does not return for every object that is not null.
  \<^verbatim>\<open>sanitizeUrl\<close> calls \<^verbatim>\<open>url.replace\<close> on its argument as it is, where \<^verbatim>\<open>sanitize\<close> and
  \<^verbatim>\<open>sanitizeConversationId\<close> convert theirs with \<^verbatim>\<open>String(...)\<close> first. A request whose
  \<^verbatim>\<open>url\<close> is the number 5 makes it throw a \<^verbatim>\<open>TypeError\<close>, whatever the platform and the
  time: no object of five properties is returned, and the dispatcher answers
  \<^verbatim>\<open>Request processing failed\<close>.
\<close>

theorem sanitizeMessage_url_throws:
  "truthy (Obj [(''type'', Str (js ''STORE_MEMORY'')), (''url'', Num 5)]) \<and>
   sanitizeMessage P now (Obj [(''type'', Str (js ''STORE_MEMORY'')), (''url'', Num 5)]) =
     Inl TypeError \<and>
   handleMessage P now (Obj [(''type'', Str (js ''STORE_MEMORY'')), (''url'', Num 5)]) =
     RequestProcessingFailed"
  by (simp add: sanitizeMessage_def sanitizeUrl_def handleMessage_def)

text \<open>No request reaches a handler.\<close>

lemma handleMessage_never_routes:
  "handleMessage P now request = UnknownMessageType \<or>
   handleMessage P now request = RequestProcessingFailed"
proof (cases "sanitizeMessage P now request")
  case (Inl e)
  then show ?thesis by (simp add: handleMessage_def)
next
  case (Inr r)
  show ?thesis
  proof (cases "truthy request")
    case True
    then show ?thesis using handleMessage_sanitized[OF True Inr] by simp
  next
    case False
    then have "r = Obj [(''role'', Str []), (''content'', Str [])]"
      using Inr by (simp add: sanitizeMessage_def)
    then show ?thesis using Inr by (simp add: handleMessage_def dispatch_def)
  qed
qed

section \<open>Encrypting and decrypting credentials\<close>

lemmas io_defs = ret_def throw_def lift_def and_then_def try_catch_def modify_def called_def

lemma buffer_roundtrip: "base64ToArrayBuffer (b64_encode (map unat bs)) = Inr bs"
  by (simp add: base64ToArrayBuffer_def atob_b64_encode[OF unat_bytes] of_nat_unat_bytes)

lemma draw_salt: "getRandomValues saltLength w = (Inr (salt_of w), after_salt w)"
  by (simp add: getRandomValues_def io_defs saltLength_def salt_of_def after_salt_def)

lemma draw_iv: "getRandomValues ivLength (after_salt w) = (Inr (iv_of w), after_iv w)"
  by (simp add: getRandomValues_def io_defs ivLength_def iv_of_def after_salt_def after_iv_def
      add.commute)

lemma encryptCredentials_eq:
  assumes "derive_key P (text_encode p) (salt_of w) iterations = Some key"
    and "gcm_encrypt P key (iv_of w) (payload P c) = Some ct"
  shows "encryptCredentials P c p w =
     (Inr (blob_of ct (salt_of w) (iv_of w) (clock w)),
      w\<lparr>drawn := drawn w + 28,
        calls := calls w @ [GetRandomValues 16, GetRandomValues 12, DeriveKey, Encrypt]\<rparr>)"
  unfolding encryptCredentials_def try_catch_def and_then_def draw_salt prod.case sum.case
    draw_iv
  using assms
  by (simp add: io_defs deriveKeyFromPassphrase_def subtle_encrypt_def arrayBufferToBase64_def
      btoa_bytes blob_of_def after_iv_def)

lemma encryptCredentials_calls:
  "\<exists>cs. calls (snd (encryptCredentials P c p w)) =
        calls w @ GetRandomValues 16 # GetRandomValues 12 # DeriveKey # cs"
  unfolding encryptCredentials_def try_catch_def and_then_def draw_salt prod.case sum.case
    draw_iv
  by (simp add: io_defs deriveKeyFromPassphrase_def subtle_encrypt_def arrayBufferToBase64_def
      btoa_bytes after_iv_def split: option.splits)

lemma decryptCredentials_eq:
  assumes "derive_key P (text_encode p) salt iterations = Some key"
    and "gcm_decrypt P key iv ct = Some data"
  shows "decryptCredentials P (blob_of ct salt iv t) p w =
     (if 65536 < length data
      then (Inl decrypt_failed,
            w\<lparr>calls := calls w @ [DeriveKey, Decrypt, GetRandomValues (length data)]\<rparr>)
      else (case json_parse P (text_decode data) of
              None \<Rightarrow> Inl decrypt_failed | Some v \<Rightarrow> Inr v,
            w\<lparr>drawn := drawn w + length data,
              calls := calls w @ [DeriveKey, Decrypt, GetRandomValues (length data)]\<rparr>))"
  using assms
  by (simp add: decryptCredentials_def io_defs blob_of_def buffer_roundtrip
      deriveKeyFromPassphrase_def subtle_decrypt_def clearBuffer_def getRandomValues_def
      decrypt_failed_def split: option.splits)

lemma credentials_roundtrip_eq:
  assumes "derive_key P (text_encode p) (salt_of w) iterations = Some key"
    and "gcm_encrypt P key (iv_of w) (payload P c) = Some ct"
    and "gcm_decrypt P key (iv_of w) ct = Some (payload P c)"
  shows "fst (credentials_roundtrip P c p w) =
     (if 65536 < length (payload P c) then Inl decrypt_failed
      else (case json_parse P (text_decode (payload P c)) of
              None \<Rightarrow> Inl decrypt_failed | Some v \<Rightarrow> Inr v))"
  unfolding credentials_roundtrip_def and_then_def encryptCredentials_eq[OF assms(1,2)]
  by (simp add: decryptCredentials_eq[OF assms(1,3)])

text \<open>
  The round trip on payloads of at most 65536 bytes: with a key derivation that is a function
  of passphrase and salt, a cipher whose decryption inverts its encryption, and a JSON codec
  that reads back what it wrote for these credentials.
\<close>

lemma credentials_roundtrip_small:
  assumes "derive_key P (text_encode p) (salt_of w) iterations = Some key"
    and "gcm_encrypt P key (iv_of w) (payload P c) = Some ct"
    and "gcm_decrypt P key (iv_of w) ct = Some (payload P c)"
    and "json_stringify P c = Some s" "well_formed s" "\<not> starts_with_bom s"
    and "json_parse P s = Some c"
    and "length (payload P c) \<le> 65536"
  shows "fst (credentials_roundtrip P c p w) = Inr c"
proof -
  have "text_decode (payload P c) = s"
    using assms(4) text_roundtrip[OF assms(5,6)] by (simp add: payload_def)
  then show ?thesis
    using credentials_roundtrip_eq[OF assms(1,2,3)] assms(7,8) by simp
qed

lemma demo_gcm_correct:
  "demo_gcm_encrypt key iv d = Some ct \<Longrightarrow> demo_gcm_decrypt key iv ct = Some d"
  by (auto simp: demo_gcm_encrypt_def demo_gcm_decrypt_def length_xor_with xor_with_involution)

lemma demo_derive: "derive_key demo_platform pw salt n = Some (salt @ pw)"
  by (simp add: demo_platform_def demo_derive_key_def)

lemma demo_encrypt:
  "gcm_encrypt demo_platform key iv d = Some (xor_with (iv @ key) d @ replicate 16 0)"
  by (simp add: demo_platform_def demo_gcm_encrypt_def)

lemma demo_decrypt:
  "gcm_decrypt demo_platform key iv (xor_with (iv @ key) d @ replicate 16 0) = Some d"
  using demo_gcm_correct[of key iv d] by (simp add: demo_platform_def demo_gcm_encrypt_def)

lemma demo_roundtrip_eq:
  "fst (credentials_roundtrip demo_platform c p w) =
     (if 65536 < length (payload demo_platform c) then Inl decrypt_failed
      else (case json_parse demo_platform (text_decode (payload demo_platform c)) of
              None \<Rightarrow> Inl decrypt_failed | Some v \<Rightarrow> Inr v))"
  by (rule credentials_roundtrip_eq[OF demo_derive demo_encrypt demo_decrypt])

lemma big_json:
  "json_stringify demo_platform big_credentials =
     Some (js ''{\"supabaseUrl\":\"https://test.supabase.co\",\"supabaseKey\":\"eyJ'' @
           replicate 65536 97 @ js ''.a.a\"}'')"
  by (simp add: demo_platform_def big_credentials_def js_def plain_char_def list_all_iff)

lemma big_payload: "65536 < length (payload demo_platform big_credentials)"
proof -
  define t where "t = js ''{\"supabaseUrl\":\"https://test.supabase.co\",\"supabaseKey\":\"eyJ'' @
           replicate 65536 97 @ js ''.a.a\"}''"
  have a: "list_all (\<lambda>c. c < 128) t"
    unfolding t_def by (simp add: js_def list_all_iff)
  have l: "65536 < length t" unfolding t_def by (simp add: js_def)
  have "payload demo_platform big_credentials = text_encode t"
    unfolding payload_def big_json t_def by simp
  then show ?thesis using text_encode_ascii[OF a] l by simp
qed

text \<open>
  C1: the round trip fails on credentials whose JSON text is longer than 65536 bytes.
  Decryption itself succeeds, but \<^verbatim>\<open>clearBuffer\<close> then asks \<^verbatim>\<open>crypto.getRandomValues\<close> for
  more bytes than one call may deliver, and the exception is reported as a failed decryption.
\<close>

theorem credentials_roundtrip_large_fails:
  "fst (credentials_roundtrip demo_platform big_credentials (js ''passphrase'') demo_world) =
     Inl (Error (js ''Failed to decrypt credentials - invalid passphrase or corrupted data''))"
  unfolding demo_roundtrip_eq using big_payload by (simp add: decrypt_failed_def)

text \<open>
  C2: \<^verbatim>\<open>encryptCredentials\<close> does not validate. For credentials without
  \<^verbatim>\<open>supabaseKey\<close>, which \<^verbatim>\<open>validateCredentials\<close> rejects, it draws salt and IV, derives the
  key, encrypts and returns a blob.
\<close>

theorem encryptCredentials_no_validation:
  "\<not> validateCredentials missing_key_credentials \<and>
   \<not> isl (fst (encryptCredentials demo_platform missing_key_credentials (js ''passphrase'')
                demo_world)) \<and>
   calls (snd (encryptCredentials demo_platform missing_key_credentials (js ''passphrase'')
                demo_world)) =
     [GetRandomValues 16, GetRandomValues 12, DeriveKey, Encrypt]"
proof -
  have v: "\<not> validateCredentials missing_key_credentials"
    by (simp add: validateCredentials_def missing_key_credentials_def)
  have e: "encryptCredentials demo_platform missing_key_credentials (js ''passphrase'') demo_world =
     (Inr (blob_of (xor_with (iv_of demo_world @ salt_of demo_world @ text_encode (js ''passphrase''))
                      (payload demo_platform missing_key_credentials) @ replicate 16 0)
             (salt_of demo_world) (iv_of demo_world) (clock demo_world)),
      demo_world\<lparr>drawn := drawn demo_world + 28,
        calls := calls demo_world @ [GetRandomValues 16, GetRandomValues 12, DeriveKey, Encrypt]\<rparr>)"
    by (rule encryptCredentials_eq[OF demo_derive demo_encrypt])
  show ?thesis unfolding e using v by (simp add: demo_world_def)
qed

theorem encryptCredentials_no_validation_witness:
  "validateCredentials missing_key_credentials = False \<and>
   isl (fst (encryptCredentials demo_platform missing_key_credentials (js ''passphrase'')
               demo_world)) = False"
  using encryptCredentials_no_validation by blast

section \<open>Migration\<close>

lemmas eval_regex =
  regex_test_def test_from_Bol plus_def js_def in_ranges_def lit_match_def alnum_class_def
  token_class_def

lemma demo_url_valid: "regex_test urlPattern False (js ''https://test.supabase.co'')"
  by (simp add: urlPattern_def eval_regex)

lemma demo_key_valid: "regex_test keyPattern False (js ''eyJhbGci.eyJyb2xl.c2ln'')"
  by (simp add: keyPattern_def eval_regex)

lemma demo_credentials_valid: "validateCredentials demo_credentials"
proof -
  have n: "js ''https://test.supabase.co'' \<noteq> []" "js ''eyJhbGci.eyJyb2xl.c2ln'' \<noteq> []"
    by (simp_all add: js_def)
  show ?thesis
    using demo_url_valid demo_key_valid n
    by (simp add: validateCredentials_def demo_credentials_def is_object_def is_string_def)
qed

lemma map_of_filter_none: "(\<And>v. \<not> P (k, v)) \<Longrightarrow> map_of (filter P kvs) k = None"
  by (induction kvs) auto

lemma migrate_invalid:
  "\<not> validateCredentials c \<Longrightarrow>
   migrateToEncrypted P c p w = (Inl (Error (js ''Invalid credential format'')), w)"
  by (simp add: migrateToEncrypted_def io_defs)

lemma migrate_valid:
  assumes "validateCredentials c"
    and "derive_key P (text_encode p) (salt_of w) iterations = Some key"
    and "gcm_encrypt P key (iv_of w) (payload P c) = Some ct"
  shows "fst (migrateToEncrypted P c p w) = Inr True"
    and "storage_get ''encryptedCredentials'' (snd (migrateToEncrypted P c p w)) =
           blob_of ct (salt_of w) (iv_of w) (clock w)"
    and "storage_get ''credentialsMigrated'' (snd (migrateToEncrypted P c p w)) = Bool True"
    and "storage_get ''migrationDate'' (snd (migrateToEncrypted P c p w)) = Num (int (clock w))"
    and "storage_get ''supabaseUrl'' (snd (migrateToEncrypted P c p w)) = Undefined"
    and "storage_get ''supabaseKey'' (snd (migrateToEncrypted P c p w)) = Undefined"
proof -
  have m: "migrateToEncrypted P c p w =
     (Inr True,
      w\<lparr>drawn := drawn w + 28,
        calls := calls w @ [GetRandomValues 16, GetRandomValues 12, DeriveKey, Encrypt],
        storage := filter (\<lambda>(k, v). k \<notin> set [''supabaseUrl'', ''supabaseKey''])
          ([(''encryptedCredentials'', blob_of ct (salt_of w) (iv_of w) (clock w)),
            (''credentialsMigrated'', Bool True), (''migrationDate'', Num (int (clock w)))] @
           filter (\<lambda>(k, v). k \<notin> set (map fst
              [(''encryptedCredentials'', blob_of ct (salt_of w) (iv_of w) (clock w)),
               (''credentialsMigrated'', Bool True), (''migrationDate'', Num (int (clock w)))]))
             (storage w))\<rparr>)"
    unfolding migrateToEncrypted_def try_catch_def and_then_def
    using assms(1) encryptCredentials_eq[OF assms(2,3)]
    by (simp add: ret_def throw_def storage_set_def storage_remove_def modify_def)
  show "fst (migrateToEncrypted P c p w) = Inr True" by (simp add: m)
  show "storage_get ''encryptedCredentials'' (snd (migrateToEncrypted P c p w)) =
           blob_of ct (salt_of w) (iv_of w) (clock w)"
    by (simp add: m storage_get_def)
  show "storage_get ''credentialsMigrated'' (snd (migrateToEncrypted P c p w)) = Bool True"
    by (simp add: m storage_get_def)
  show "storage_get ''migrationDate'' (snd (migrateToEncrypted P c p w)) = Num (int (clock w))"
    by (simp add: m storage_get_def)
  show "storage_get ''supabaseUrl'' (snd (migrateToEncrypted P c p w)) = Undefined"
    by (simp add: m storage_get_def map_of_filter_none)
  show "storage_get ''supabaseKey'' (snd (migrateToEncrypted P c p w)) = Undefined"
    by (simp add: m storage_get_def map_of_filter_none)
qed

lemma encryptCredentials_storage:
  "storage (snd (encryptCredentials P c p w)) = storage w"
  unfolding encryptCredentials_def try_catch_def and_then_def draw_salt prod.case sum.case
    draw_iv
  by (simp add: io_defs deriveKeyFromPassphrase_def subtle_encrypt_def arrayBufferToBase64_def
      btoa_bytes after_iv_def split: option.splits)

lemma encryptCredentials_fails:
  assumes "derive_key P (text_encode p) (salt_of w) iterations = None \<or>
           (derive_key P (text_encode p) (salt_of w) iterations = Some key \<and>
            gcm_encrypt P key (iv_of w) (payload P c) = None)"
  shows "fst (encryptCredentials P c p w) = Inl (Error (js ''Failed to encrypt credentials''))"
  unfolding encryptCredentials_def try_catch_def and_then_def draw_salt prod.case sum.case
    draw_iv
  using assms
  by (auto simp: io_defs deriveKeyFromPassphrase_def subtle_encrypt_def arrayBufferToBase64_def
      btoa_bytes after_iv_def split: option.splits)

text \<open>No path of \<^verbatim>\<open>migrateToEncrypted\<close> returns \<^verbatim>\<open>false\<close>.\<close>

lemma migrate_never_false: "fst (migrateToEncrypted P c p w) \<noteq> Inr False"
  unfolding migrateToEncrypted_def try_catch_def and_then_def
  by (simp add: ret_def throw_def storage_set_def storage_remove_def modify_def
      split: prod.splits sum.splits)

lemma migrate_encrypt_fails:
  assumes "validateCredentials c"
    and "derive_key P (text_encode p) (salt_of w) iterations = None \<or>
           (derive_key P (text_encode p) (salt_of w) iterations = Some key \<and>
            gcm_encrypt P key (iv_of w) (payload P c) = None)"
  shows "fst (migrateToEncrypted P c p w) = Inl (Error (js ''Failed to encrypt credentials''))"
    and "storage (snd (migrateToEncrypted P c p w)) = storage w"
proof -
  obtain w' where e: "encryptCredentials P c p w =
      (Inl (Error (js ''Failed to encrypt credentials'')), w')"
    using encryptCredentials_fails[OF assms(2)] by (cases "encryptCredentials P c p w") auto
  have s: "storage w' = storage w" using encryptCredentials_storage[of P c p w] e by simp
  have m: "migrateToEncrypted P c p w =
      (Inl (Error (js ''Failed to encrypt credentials'')), w')"
    unfolding migrateToEncrypted_def try_catch_def and_then_def
    using assms(1) e by (simp add: ret_def throw_def)
  show "fst (migrateToEncrypted P c p w) = Inl (Error (js ''Failed to encrypt credentials''))"
    by (simp add: m)
  show "storage (snd (migrateToEncrypted P c p w)) = storage w" by (simp add: m s)
qed

lemma not_valid_absent:
  "\<not> validateCredentials Undefined" "\<not> validateCredentials Null" "\<not> validateCredentials (Obj [])"
  by (simp_all add: validateCredentials_def)

text \<open>
  C8: with nothing to migrate, \<^verbatim>\<open>migrateToEncrypted\<close> does not return \<^verbatim>\<open>false\<close>. An
  absent argument and an empty object fail \<^verbatim>\<open>validateCredentials\<close>, and the call throws
  \<^verbatim>\<open>Invalid credential format\<close>, leaving the state as it was; so does every argument that
  fails the validation, and no call at all returns \<^verbatim>\<open>false\<close>. The rest of the claim
  holds: when the argument passes the validation and key derivation and encryption succeed,
  the blob is stored together with \<^verbatim>\<open>credentialsMigrated\<close> and \<^verbatim>\<open>migrationDate\<close>, the
  plaintext fields are removed from the store, and the result is \<^verbatim>\<open>true\<close>. When key
  derivation or encryption fails, the call throws \<^verbatim>\<open>Failed to encrypt credentials\<close> and
  the store is as it was.
\<close>

theorem migrateToEncrypted_outcomes:
  "migrateToEncrypted P Undefined p w = (Inl (Error (js ''Invalid credential format'')), w) \<and>
   migrateToEncrypted P (Obj []) p w = (Inl (Error (js ''Invalid credential format'')), w) \<and>
   (\<not> validateCredentials c \<longrightarrow>
      migrateToEncrypted P c p w = (Inl (Error (js ''Invalid credential format'')), w)) \<and>
   fst (migrateToEncrypted P c p w) \<noteq> Inr False \<and>
   (validateCredentials c \<and>
    derive_key P (text_encode p) (salt_of w) iterations = Some key \<and>
    gcm_encrypt P key (iv_of w) (payload P c) = Some ct \<longrightarrow>
      fst (migrateToEncrypted P c p w) = Inr True \<and>
      storage_get ''encryptedCredentials'' (snd (migrateToEncrypted P c p w)) =
        blob_of ct (salt_of w) (iv_of w) (clock w) \<and>
      storage_get ''credentialsMigrated'' (snd (migrateToEncrypted P c p w)) = Bool True \<and>
      storage_get ''migrationDate'' (snd (migrateToEncrypted P c p w)) = Num (int (clock w)) \<and>
      storage_get ''supabaseUrl'' (snd (migrateToEncrypted P c p w)) = Undefined \<and>
      storage_get ''supabaseKey'' (snd (migrateToEncrypted P c p w)) = Undefined) \<and>
   (validateCredentials c \<and>
    (derive_key P (text_encode p) (salt_of w) iterations = None \<or>
     derive_key P (text_encode p) (salt_of w) iterations = Some key \<and>
     gcm_encrypt P key (iv_of w) (payload P c) = None) \<longrightarrow>
      fst (migrateToEncrypted P c p w) = Inl (Error (js ''Failed to encrypt credentials'')) \<and>
      storage (snd (migrateToEncrypted P c p w)) = storage w)"
proof (intro conjI)
  show "migrateToEncrypted P Undefined p w =
      (Inl (Error (js ''Invalid credential format'')), w)"
    by (rule migrate_invalid) (rule not_valid_absent)
  show "migrateToEncrypted P (Obj []) p w =
      (Inl (Error (js ''Invalid credential format'')), w)"
    by (rule migrate_invalid) (rule not_valid_absent)
  show "\<not> validateCredentials c \<longrightarrow>
      migrateToEncrypted P c p w = (Inl (Error (js ''Invalid credential format'')), w)"
    using migrate_invalid[of c P p w] by (rule impI)
  show "fst (migrateToEncrypted P c p w) \<noteq> Inr False" by (rule migrate_never_false)
  show "validateCredentials c \<and>
    derive_key P (text_encode p) (salt_of w) iterations = Some key \<and>
    gcm_encrypt P key (iv_of w) (payload P c) = Some ct \<longrightarrow>
      fst (migrateToEncrypted P c p w) = Inr True \<and>
      storage_get ''encryptedCredentials'' (snd (migrateToEncrypted P c p w)) =
        blob_of ct (salt_of w) (iv_of w) (clock w) \<and>
      storage_get ''credentialsMigrated'' (snd (migrateToEncrypted P c p w)) = Bool True \<and>
      storage_get ''migrationDate'' (snd (migrateToEncrypted P c p w)) = Num (int (clock w)) \<and>
      storage_get ''supabaseUrl'' (snd (migrateToEncrypted P c p w)) = Undefined \<and>
      storage_get ''supabaseKey'' (snd (migrateToEncrypted P c p w)) = Undefined"
  proof
    assume h: "validateCredentials c \<and>
      derive_key P (text_encode p) (salt_of w) iterations = Some key \<and>
      gcm_encrypt P key (iv_of w) (payload P c) = Some ct"
    then have v: "validateCredentials c"
      and d: "derive_key P (text_encode p) (salt_of w) iterations = Some key"
      and g: "gcm_encrypt P key (iv_of w) (payload P c) = Some ct" by simp_all
    from migrate_valid[OF v d g]
    show "fst (migrateToEncrypted P c p w) = Inr True \<and>
      storage_get ''encryptedCredentials'' (snd (migrateToEncrypted P c p w)) =
        blob_of ct (salt_of w) (iv_of w) (clock w) \<and>
      storage_get ''credentialsMigrated'' (snd (migrateToEncrypted P c p w)) = Bool True \<and>
      storage_get ''migrationDate'' (snd (migrateToEncrypted P c p w)) = Num (int (clock w)) \<and>
      storage_get ''supabaseUrl'' (snd (migrateToEncrypted P c p w)) = Undefined \<and>
      storage_get ''supabaseKey'' (snd (migrateToEncrypted P c p w)) = Undefined"
      by (intro conjI)
  qed
  show "validateCredentials c \<and>
    (derive_key P (text_encode p) (salt_of w) iterations = None \<or>
     derive_key P (text_encode p) (salt_of w) iterations = Some key \<and>
     gcm_encrypt P key (iv_of w) (payload P c) = None) \<longrightarrow>
      fst (migrateToEncrypted P c p w) = Inl (Error (js ''Failed to encrypt credentials'')) \<and>
      storage (snd (migrateToEncrypted P c p w)) = storage w"
  proof
    assume h: "validateCredentials c \<and>
      (derive_key P (text_encode p) (salt_of w) iterations = None \<or>
       derive_key P (text_encode p) (salt_of w) iterations = Some key \<and>
       gcm_encrypt P key (iv_of w) (payload P c) = None)"
    then have v: "validateCredentials c"
      and f: "derive_key P (text_encode p) (salt_of w) iterations = None \<or>
       (derive_key P (text_encode p) (salt_of w) iterations = Some key \<and>
        gcm_encrypt P key (iv_of w) (payload P c) = None)" by simp_all
    from migrate_encrypt_fails[OF v f]
    show "fst (migrateToEncrypted P c p w) =
        Inl (Error (js ''Failed to encrypt credentials'')) \<and>
      storage (snd (migrateToEncrypted P c p w)) = storage w"
      by (intro conjI)
  qed
qed

theorem migrateToEncrypted_outcomes_witness:
  "validateCredentials demo_credentials \<and>
   fst (migrateToEncrypted demo_platform demo_credentials (js ''passphrase'') legacy_world) =
     Inr True \<and>
   storage_get ''credentialsMigrated''
     (snd (migrateToEncrypted demo_platform demo_credentials (js ''passphrase'') legacy_world)) =
     Bool True \<and>
   storage_get ''migrationDate''
     (snd (migrateToEncrypted demo_platform demo_credentials (js ''passphrase'') legacy_world)) =
     Num 1700000000000 \<and>
   storage_get ''supabaseKey''
     (snd (migrateToEncrypted demo_platform demo_credentials (js ''passphrase'') legacy_world)) =
     Undefined \<and>
   \<not> validateCredentials (Obj [(''supabaseUrl'', Str (js ''https://test.supabase.co''))]) \<and>
   migrateToEncrypted demo_platform
     (Obj [(''supabaseUrl'', Str (js ''https://test.supabase.co''))]) (js ''passphrase'')
     legacy_world =
     (Inl (Error (js ''Invalid credential format'')), legacy_world) \<and>
   fst (migrateToEncrypted (demo_platform\<lparr>derive_key := \<lambda>pw salt n. None\<rparr>) demo_credentials
     (js ''passphrase'') legacy_world) = Inl (Error (js ''Failed to encrypt credentials'')) \<and>
   storage (snd (migrateToEncrypted (demo_platform\<lparr>derive_key := \<lambda>pw salt n. None\<rparr>)
     demo_credentials (js ''passphrase'') legacy_world)) = storage legacy_world"
proof -
  let ?p = "js ''passphrase''"
  let ?u = "Obj [(''supabaseUrl'', Str (js ''https://test.supabase.co''))]"
  let ?F = "demo_platform\<lparr>derive_key := \<lambda>pw salt n. None\<rparr>"
  let ?key = "salt_of legacy_world @ text_encode ?p"
  let ?ct = "xor_with (iv_of legacy_world @ ?key) (payload demo_platform demo_credentials) @
             replicate 16 0"
  have n: "\<not> validateCredentials ?u"
    by (simp add: validateCredentials_def)
  have d: "derive_key ?F (text_encode ?p) (salt_of legacy_world) iterations = None" by simp
  have k: "derive_key demo_platform (text_encode ?p) (salt_of legacy_world) iterations =
      Some ?key" by (rule demo_derive)
  have g: "gcm_encrypt demo_platform ?key (iv_of legacy_world)
      (payload demo_platform demo_credentials) = Some ?ct" by (rule demo_encrypt)
  have c: "Num (int (clock legacy_world)) = Num 1700000000000"
    by (simp add: legacy_world_def demo_world_def)
  have 1: "fst (migrateToEncrypted demo_platform demo_credentials ?p legacy_world) = Inr True \<and>
    storage_get ''credentialsMigrated''
      (snd (migrateToEncrypted demo_platform demo_credentials ?p legacy_world)) = Bool True \<and>
    storage_get ''migrationDate''
      (snd (migrateToEncrypted demo_platform demo_credentials ?p legacy_world)) =
      Num 1700000000000 \<and>
    storage_get ''supabaseKey''
      (snd (migrateToEncrypted demo_platform demo_credentials ?p legacy_world)) = Undefined"
    using migrateToEncrypted_outcomes [of demo_platform ?p legacy_world demo_credentials
        ?key ?ct] demo_credentials_valid k g
    unfolding c [symmetric] by simp
  have 2: "migrateToEncrypted demo_platform ?u ?p legacy_world =
      (Inl (Error (js ''Invalid credential format'')), legacy_world)"
    using migrateToEncrypted_outcomes [of demo_platform ?p legacy_world ?u] n by simp
  have 3: "fst (migrateToEncrypted ?F demo_credentials ?p legacy_world) =
      Inl (Error (js ''Failed to encrypt credentials'')) \<and>
    storage (snd (migrateToEncrypted ?F demo_credentials ?p legacy_world)) =
      storage legacy_world"
    using migrateToEncrypted_outcomes [of ?F ?p legacy_world demo_credentials]
      demo_credentials_valid d by simp
  from demo_credentials_valid n 1 2 3 show ?thesis by simp
qed

section \<open>The session passphrase\<close>

lemma decryptCredentials_frame:
  "sessionPassphrase (snd (decryptCredentials P e p w)) = sessionPassphrase w"
  "passphraseTimeout (snd (decryptCredentials P e p w)) = passphraseTimeout w"
  "clock (snd (decryptCredentials P e p w)) = clock w"
  "storage (snd (decryptCredentials P e p w)) = storage w"
  "encryptedCredentials (snd (decryptCredentials P e p w)) = encryptedCredentials w"
  by (simp_all add: decryptCredentials_def io_defs deriveKeyFromPassphrase_def
      subtle_decrypt_def clearBuffer_def getRandomValues_def
      split: sum.splits option.splits prod.splits)

lemma decryptCredentials_result:
  "fst (decryptCredentials P e p w) = fst (decryptCredentials P e p w')"
  by (simp add: decryptCredentials_def io_defs deriveKeyFromPassphrase_def
      subtle_decrypt_def clearBuffer_def getRandomValues_def
      split: sum.splits option.splits prod.splits)

lemma getCredentials_none:
  "\<not> truthy (encryptedCredentials w) \<Longrightarrow> getCredentials P w = (Inr Null, w)"
  by (simp add: getCredentials_def try_catch_def)

text \<open>A call that finds the passphrase: the timer is set anew, then the blob is decrypted.\<close>

lemma getCredentials_cached:
  assumes "truthy (encryptedCredentials w)" "cached w"
  shows "getCredentials P w =
     (case decryptCredentials P (encryptedCredentials w) (passphrase_text (sessionPassphrase w))
             (w\<lparr>passphraseTimeout := Some (clock w + PASSPHRASE_TIMEOUT)\<rparr>) of
        (Inl e, w') \<Rightarrow> (Inr Null, w'\<lparr>sessionPassphrase := None\<rparr>)
      | (Inr v, w') \<Rightarrow> (Inr v, w'))"
  using assms
  by (simp add: getCredentials_def try_catch_def and_then_def recover_passphrase_def
      reset_timeout_def modify_def ret_def split: prod.splits sum.splits)

text \<open>A call that finds no passphrase reads the installation key from the store.\<close>

lemma getCredentials_no_key:
  assumes "truthy (encryptedCredentials w)" "\<not> cached w"
    "\<not> truthy (storage_get ''installationKey'' w)"
  shows "getCredentials P w = (Inr Null, w\<lparr>sessionPassphrase := None\<rparr>)"
  using assms
  by (simp add: getCredentials_def try_catch_def and_then_def recover_passphrase_def
      reset_timeout_def modify_def ret_def split: prod.splits sum.splits)

lemma getCredentials_recovered:
  assumes "truthy (encryptedCredentials w)" "\<not> cached w"
    "truthy (storage_get ''installationKey'' w)"
    "decryptInstallationKey P (to_string (storage_get ''installationKey'' w)) = Inr p"
  shows "getCredentials P w =
     (case decryptCredentials P (encryptedCredentials w) p
             (w\<lparr>sessionPassphrase := Some p,
                passphraseTimeout := Some (clock w + PASSPHRASE_TIMEOUT)\<rparr>) of
        (Inl e, w') \<Rightarrow> (Inr Null, w'\<lparr>sessionPassphrase := None\<rparr>)
      | (Inr v, w') \<Rightarrow> (Inr v, w'))"
  using assms
  by (simp add: getCredentials_def try_catch_def and_then_def recover_passphrase_def
      reset_timeout_def modify_def ret_def passphrase_text_def split: prod.splits sum.splits)

lemma encryptCredentials_frame:
  "sessionPassphrase (snd (encryptCredentials P c p w)) = sessionPassphrase w"
  "passphraseTimeout (snd (encryptCredentials P c p w)) = passphraseTimeout w"
  "clock (snd (encryptCredentials P c p w)) = clock w"
  unfolding encryptCredentials_def try_catch_def and_then_def draw_salt prod.case sum.case
    draw_iv
  by (simp_all add: io_defs deriveKeyFromPassphrase_def subtle_encrypt_def
      arrayBufferToBase64_def btoa_bytes after_iv_def split: option.splits)

text \<open>
  \<^verbatim>\<open>updateConfig\<close> either leaves the passphrase and its timer as they are, or caches a
  new passphrase and sets the timer anew.
\<close>

lemma updateConfig_session:
  "clock (snd (updateConfig P config w)) = clock w \<and>
   ((sessionPassphrase (snd (updateConfig P config w)) = sessionPassphrase w \<and>
     passphraseTimeout (snd (updateConfig P config w)) = passphraseTimeout w) \<or>
    (cached (snd (updateConfig P config w)) \<and>
     passphraseTimeout (snd (updateConfig P config w)) = Some (clock w + PASSPHRASE_TIMEOUT)))"
proof -
  define c where "c = Obj [(''supabaseUrl'', get_prop (Obj config) ''supabaseUrl''),
                           (''supabaseKey'', get_prop (Obj config) ''supabaseKey'')]"
  define g where "g = b64_encode (map unat (map (entropy w) [drawn w ..< drawn w + 32]))"
  define wg where "wg = w\<lparr>calls := calls w @ [GetRandomValues 32], drawn := drawn w + 32\<rparr>"
  have gen: "generateSecurePassphrase w = (Inr g, wg)"
    unfolding g_def wg_def by (rule generateSecurePassphrase_eq)
  have "length g = 44" unfolding g_def by (simp add: length_b64_encode)
  then have gne: "g \<noteq> []" by auto
  obtain r w1 where e: "encryptCredentials P c g wg = (r, w1)"
    by (cases "encryptCredentials P c g wg") auto
  have f: "sessionPassphrase w1 = sessionPassphrase w" "passphraseTimeout w1 = passphraseTimeout w"
    "clock w1 = clock w"
    using encryptCredentials_frame[of P c g wg] e by (simp_all add: wg_def)
  show ?thesis
    unfolding updateConfig_def try_catch_def and_then_def c_def[symmetric]
    using gen e f gne
    by (cases r; cases "encryptInstallationKey P g")
       (simp_all add: ret_def throw_def lift_def modify_def storage_set_def reset_timeout_def
          cached_def)
qed


lemma getCredentials_found:
  assumes "truthy (encryptedCredentials w)" "cached w"
  shows "passphraseTimeout (snd (getCredentials P w)) = Some (clock w + PASSPHRASE_TIMEOUT)"
    and "clock (snd (getCredentials P w)) = clock w"
    and "storage (snd (getCredentials P w)) = storage w"
    and "encryptedCredentials (snd (getCredentials P w)) = encryptedCredentials w"
    and "sessionPassphrase (snd (getCredentials P w)) =
           (if decrypts P w then sessionPassphrase w else None)"
    and "fst (getCredentials P w) =
           (case fst (decryptCredentials P (encryptedCredentials w)
                        (passphrase_text (sessionPassphrase w)) w) of
              Inl e \<Rightarrow> Inr Null | Inr v \<Rightarrow> Inr v)"
proof -
  let ?w = "w\<lparr>passphraseTimeout := Some (clock w + PASSPHRASE_TIMEOUT)\<rparr>"
  let ?d = "decryptCredentials P (encryptedCredentials w)
              (passphrase_text (sessionPassphrase w))"
  obtain r w' where d: "?d ?w = (r, w')" by (cases "?d ?w") auto
  have r: "fst (?d w) = r" using decryptCredentials_result[of P _ _ w ?w] d by simp
  have f: "sessionPassphrase w' = sessionPassphrase w"
    "passphraseTimeout w' = Some (clock w + PASSPHRASE_TIMEOUT)" "clock w' = clock w"
    "storage w' = storage w" "encryptedCredentials w' = encryptedCredentials w"
    using decryptCredentials_frame[of P "encryptedCredentials w"
        "passphrase_text (sessionPassphrase w)" ?w] d by simp_all
  have g: "getCredentials P w =
     (case r of Inl e \<Rightarrow> (Inr Null, w'\<lparr>sessionPassphrase := None\<rparr>) | Inr v \<Rightarrow> (Inr v, w'))"
    unfolding getCredentials_cached[OF assms] d by (simp split: sum.splits)
  show "passphraseTimeout (snd (getCredentials P w)) = Some (clock w + PASSPHRASE_TIMEOUT)"
    unfolding g using f by (cases r) simp_all
  show "clock (snd (getCredentials P w)) = clock w"
    unfolding g using f by (cases r) simp_all
  show "storage (snd (getCredentials P w)) = storage w"
    unfolding g using f by (cases r) simp_all
  show "encryptedCredentials (snd (getCredentials P w)) = encryptedCredentials w"
    unfolding g using f by (cases r) simp_all
  show "sessionPassphrase (snd (getCredentials P w)) =
           (if decrypts P w then sessionPassphrase w else None)"
    unfolding g decrypts_def r using f by (cases r) simp_all
  show "fst (getCredentials P w) = (case fst (?d w) of Inl e \<Rightarrow> Inr Null | Inr v \<Rightarrow> Inr v)"
    unfolding g r by (cases r) simp_all
qed





lemma getCredentials_key_unreadable:
  assumes "truthy (encryptedCredentials w)" "\<not> cached w"
    "truthy (storage_get ''installationKey'' w)"
    "decryptInstallationKey P (to_string (storage_get ''installationKey'' w)) = Inl e"
  shows "getCredentials P w = (Inr Null, w\<lparr>sessionPassphrase := None\<rparr>)"
  using assms
  by (simp add: getCredentials_def try_catch_def and_then_def recover_passphrase_def
      reset_timeout_def modify_def ret_def split: prod.splits sum.splits)

lemma getCredentials_recovers:
  assumes "truthy (encryptedCredentials w)" "\<not> cached w"
    "truthy (storage_get ''installationKey'' w)"
    "decryptInstallationKey P (to_string (storage_get ''installationKey'' w)) = Inr p"
  shows "fst (getCredentials P w) =
           (case fst (decryptCredentials P (encryptedCredentials w) p w) of
              Inl e \<Rightarrow> Inr Null | Inr v \<Rightarrow> Inr v)"
    and "sessionPassphrase (snd (getCredentials P w)) =
           (case fst (decryptCredentials P (encryptedCredentials w) p w) of
              Inl e \<Rightarrow> None | Inr v \<Rightarrow> Some p)"
    and "passphraseTimeout (snd (getCredentials P w)) = Some (clock w + PASSPHRASE_TIMEOUT)"
    and "clock (snd (getCredentials P w)) = clock w"
proof -
  let ?w = "w\<lparr>sessionPassphrase := Some p,
               passphraseTimeout := Some (clock w + PASSPHRASE_TIMEOUT)\<rparr>"
  let ?d = "decryptCredentials P (encryptedCredentials w) p"
  obtain r w' where d: "?d ?w = (r, w')" by (cases "?d ?w") auto
  have r: "fst (?d w) = r" using decryptCredentials_result[of P _ _ w ?w] d by simp
  have f: "sessionPassphrase w' = Some p"
    "passphraseTimeout w' = Some (clock w + PASSPHRASE_TIMEOUT)" "clock w' = clock w"
    using decryptCredentials_frame[of P "encryptedCredentials w" p ?w] d by simp_all
  have g: "getCredentials P w =
     (case r of Inl e \<Rightarrow> (Inr Null, w'\<lparr>sessionPassphrase := None\<rparr>) | Inr v \<Rightarrow> (Inr v, w'))"
    unfolding getCredentials_recovered[OF assms] d by (simp split: sum.splits)
  show "fst (getCredentials P w) = (case fst (?d w) of Inl e \<Rightarrow> Inr Null | Inr v \<Rightarrow> Inr v)"
    unfolding g r by (cases r) simp_all
  show "sessionPassphrase (snd (getCredentials P w)) =
          (case fst (?d w) of Inl e \<Rightarrow> None | Inr v \<Rightarrow> Some p)"
    unfolding g r using f by (cases r) simp_all
  show "passphraseTimeout (snd (getCredentials P w)) = Some (clock w + PASSPHRASE_TIMEOUT)"
    unfolding g using f by (cases r) simp_all
  show "clock (snd (getCredentials P w)) = clock w"
    unfolding g using f by (cases r) simp_all
qed

lemma getCredentials_session:
  "clock (snd (getCredentials P w)) = clock w \<and>
   ((sessionPassphrase (snd (getCredentials P w)) = sessionPassphrase w \<and>
     passphraseTimeout (snd (getCredentials P w)) = passphraseTimeout w) \<or>
    \<not> cached (snd (getCredentials P w)) \<or>
    passphraseTimeout (snd (getCredentials P w)) = Some (clock w + PASSPHRASE_TIMEOUT))"
proof (cases "truthy (encryptedCredentials w)")
  case False
  then show ?thesis by (simp add: getCredentials_none)
next
  case enc: True
  show ?thesis
  proof (cases "cached w")
    case True
    show ?thesis using getCredentials_found(1,2)[OF enc True, of P] by simp
  next
    case nc: False
    show ?thesis
    proof (cases "truthy (storage_get ''installationKey'' w)")
      case False
      show ?thesis unfolding getCredentials_no_key[OF enc nc False] by (simp add: cached_def)
    next
      case key: True
      show ?thesis
      proof (cases "decryptInstallationKey P (to_string (storage_get ''installationKey'' w))")
        case (Inl e)
        show ?thesis unfolding getCredentials_key_unreadable[OF enc nc key Inl]
          by (simp add: cached_def)
      next
        case (Inr p)
        show ?thesis using getCredentials_recovers(3,4)[OF enc nc key Inr] by simp
      qed
    qed
  qed
qed

lemma session_inv_act: "session_inv w \<Longrightarrow> session_inv (act P a w)"
proof (cases a)
  case (Elapse ms)
  assume "session_inv w"
  then show ?thesis unfolding Elapse
    by (auto simp: session_inv_def elapse_def timer_due_def cached_def
        split: option.splits if_splits)
next
  case GetCredentialsCall
  assume "session_inv w"
  then show ?thesis unfolding GetCredentialsCall using getCredentials_session[of P w]
    by (auto simp: session_inv_def cached_def PASSPHRASE_TIMEOUT_def split: option.splits if_splits)
next
  case (UpdateConfigCall config)
  assume "session_inv w"
  then show ?thesis unfolding UpdateConfigCall using updateConfig_session[of P config w]
    by (auto simp: session_inv_def cached_def PASSPHRASE_TIMEOUT_def split: option.splits if_splits)
next
  case (IdleStateChanged s)
  assume "session_inv w"
  then show ?thesis unfolding IdleStateChanged
    by (auto simp: session_inv_def onIdleStateChanged_def cached_def
        split: option.splits if_splits)
qed

text \<open>From the start of the worker, where nothing is cached, through any run of steps.\<close>

lemma session_inv_run:
  "sessionPassphrase w = None \<Longrightarrow> session_inv (fold (act P) steps w)"
proof -
  have "session_inv w \<Longrightarrow> session_inv (fold (act P) steps w)"
    by (induction steps arbitrary: w) (simp_all add: session_inv_act)
  moreover assume "sessionPassphrase w = None"
  then have "session_inv w" by (simp add: session_inv_def cached_def)
  ultimately show ?thesis by blast
qed













end
